theory Spec2Isabelle
  imports Main "HOL-Library.Sublist"
begin

section \<open>The agent executor of \<^verbatim>\<open>agents/executor.go\<close>\<close>

subsection \<open>Strings\<close>

text \<open>
  A Go string is a sequence of bytes, here a \<^typ>\<open>string\<close>. \<^verbatim>\<open>strings.ToUpper\<close> and
  \<^verbatim>\<open>strings.ToLower\<close> come from the standard library. On text whose bytes are all below
  128 they map the letters \<^verbatim>\<open>a..z\<close> and \<^verbatim>\<open>A..Z\<close> onto each other, byte by byte,
  and leave every other byte as it is. On any other text they decode the runes, map each
  with the Unicode tables of package \<^verbatim>\<open>unicode\<close> and encode the result
  (\<^verbatim>\<open>strings.Map(unicode.ToUpper, s)\<close>): that part is a parameter of the model, the
  two maps \<open>uc\<close>, so that what is proved holds of the library's maps whatever they do
  to such text.
\<close>

record unicodeMaps =
  mapToUpper :: "string \<Rightarrow> string"
  mapToLower :: "string \<Rightarrow> string"

definition isASCII :: "string \<Rightarrow> bool" where
  "isASCII s = list_all (\<lambda>c. (of_char c :: nat) < 128) s"

definition lowerLetters :: string where
  "lowerLetters = ''abcdefghijklmnopqrstuvwxyz''"

definition upperLetters :: string where
  "upperLetters = ''ABCDEFGHIJKLMNOPQRSTUVWXYZ''"

definition toUpperByte :: "char \<Rightarrow> char" where
  "toUpperByte c = (case map_of (zip lowerLetters upperLetters) c of None \<Rightarrow> c | Some u \<Rightarrow> u)"

definition toLowerByte :: "char \<Rightarrow> char" where
  "toLowerByte c = (case map_of (zip upperLetters lowerLetters) c of None \<Rightarrow> c | Some l \<Rightarrow> l)"

definition ToUpper :: "unicodeMaps \<Rightarrow> string \<Rightarrow> string" where
  "ToUpper uc s = (if isASCII s then map toUpperByte s else mapToUpper uc s)"

definition ToLower :: "unicodeMaps \<Rightarrow> string \<Rightarrow> string" where
  "ToLower uc s = (if isASCII s then map toLowerByte s else mapToLower uc s)"

text \<open>
  What the Unicode tables do about the sentinel: no rune from 128 on is mapped to a letter
  of \<^verbatim>\<open>none\<close> or of \<^verbatim>\<open>NONE\<close>, so text with a byte from 128 on is mapped neither to
  \<^verbatim>\<open>none\<close> nor to \<^verbatim>\<open>NONE\<close>.
\<close>

definition noneFolding :: "unicodeMaps \<Rightarrow> bool" where
  "noneFolding uc \<longleftrightarrow>
     (\<forall>s. \<not> isASCII s \<longrightarrow> mapToLower uc s \<noteq> ''none'' \<and> mapToUpper uc s \<noteq> ''NONE'')"

subsection \<open>Errors\<close>

text \<open>
  The sentinel errors of the package are declared in \<^verbatim>\<open>agents/errors.go\<close>. An error
  value is a sentinel, or an error made by \<^verbatim>\<open>fmt.Errorf\<close> (or by a planner or a tool)
  from a text, which wraps another error when the format has a \<^verbatim>\<open>%w\<close>. The texts of
  the sentinels are a parameter \<open>errText\<close> of the model.
\<close>

datatype sentinel =
  ErrExecutorInputNotString | ErrAgentNoReturn | ErrNotFinished | ErrUnableToParseOutput

datatype error =
  Sentinel sentinel
| Errorf string
| ErrorfW string error

fun errors_Is :: "error \<Rightarrow> sentinel \<Rightarrow> bool" where
  "errors_Is (Sentinel x) t = (x = t)"
| "errors_Is (Errorf m) t = False"
| "errors_Is (ErrorfW m e) t = errors_Is e t"

fun Error :: "(sentinel \<Rightarrow> string) \<Rightarrow> error \<Rightarrow> string" where
  "Error errText (Sentinel x) = errText x"
| "Error errText (Errorf m) = m"
| "Error errText (ErrorfW m e) = m"

subsection \<open>The data of package \<^verbatim>\<open>schema\<close>\<close>

text \<open>
  Modelled from the spec: \<^verbatim>\<open>schema.AgentAction\<close>, \<^verbatim>\<open>schema.AgentStep\<close> and
  \<^verbatim>\<open>schema.AgentFinish\<close> are declared outside the files at hand. An action is a tool
  name, the tool's input and a log; a step is an action with its observation; a finish
  carries the return values. The zero value of an action has empty strings.
\<close>

record AgentAction =
  Tool :: string
  ToolInput :: string
  Log :: string

record AgentStep =
  Action :: AgentAction
  Observation :: string

definition zeroAction :: AgentAction where
  "zeroAction = \<lparr>Tool = [], ToolInput = [], Log = []\<rparr>"

text \<open>
  A value of type \<^verbatim>\<open>any\<close>: a string, a slice of steps, or a value of some other
  dynamic type (numbered).
\<close>

datatype anyval = VString string | VSteps "AgentStep list" | VOther nat

text \<open>
  A Go map value is \<^verbatim>\<open>nil\<close> (\<open>None\<close>) or a map; \<^verbatim>\<open>m != nil\<close> tells them apart, and
  an empty map made by \<^verbatim>\<open>make\<close> is not \<^verbatim>\<open>nil\<close>.
\<close>

type_synonym gomap = "(string \<rightharpoonup> anyval) option"

record AgentFinish =
  ReturnValues :: gomap

subsection \<open>The collaborators: planner, tools, callbacks\<close>

text \<open>
  Modelled from the spec: the interfaces \<^verbatim>\<open>Agent\<close>, \<^verbatim>\<open>tools.Tool\<close> and
  \<^verbatim>\<open>callbacks.Handler\<close> and the struct \<^verbatim>\<open>ParserErrorHandler\<close> are declared outside
  the files at hand; they are given the methods and fields that the executor uses.

  The planner, the tools and the callbacks handler are interfaces. Each method is a
  function on the state \<open>'w\<close> of the world outside the executor, which it may read and
  change (a language model answers differently from call to call), and each returns. A
  tool sees the steps through the context value \<^verbatim>\<open>StepsContextKey\<close>; what it returns
  beside an error is never read. The collaborators do not write into the steps and maps
  they are handed. The field \<^verbatim>\<open>Memory\<close> of the executor is not read by the functions
  modelled here and is left out.
\<close>

record PlanResult =
  actions :: "AgentAction list"
  finish :: "AgentFinish option"
  err :: "error option"

record 'w Tool =
  tool_Name :: string
  tool_Call :: "'w \<Rightarrow> AgentStep list \<Rightarrow> string \<Rightarrow> (error + string) \<times> 'w"

record 'w Agent =
  Plan :: "'w \<Rightarrow> AgentStep list \<Rightarrow> (string \<rightharpoonup> string) \<Rightarrow> PlanResult \<times> 'w"
  GetTools :: "'w Tool list"

record 'w Handler =
  HandleAgentAction :: "'w \<Rightarrow> AgentAction \<Rightarrow> 'w"
  HandleAgentFinish :: "'w \<Rightarrow> AgentFinish \<Rightarrow> AgentStep list \<Rightarrow> 'w"

record ParserErrorHandler =
  Formatter :: "(string \<Rightarrow> string) option"

record 'w Executor =
  Agent :: "'w Agent"
  CallbacksHandler :: "'w Handler option"
  ErrorHandler :: "ParserErrorHandler option"
  MaxIterations :: int
  ReturnIntermediateSteps :: bool

text \<open>
  The run of a call is observed through a trace of the calls the executor makes on its
  collaborators, kept beside the world; a call of the planner is recorded with the ledger
  it was given and with its result, a call of a tool with the tool's name, its input and
  the ledger in its context, a notification with what the handler is given.
\<close>

datatype event =
  PlanCalled "AgentStep list" PlanResult
| ToolCalled string string "AgentStep list"
| ActionNotified AgentAction
| FinishNotified AgentFinish "AgentStep list"

record 'w state =
  world :: 'w
  trace :: "event list"

text \<open>A Go call returns, or panics.\<close>

datatype 'a go = Panics | Returns 'a


subsection \<open>Setting up a call\<close>

text \<open>
  \<^verbatim>\<open>inputsToString\<close> ranges over the input map, in the order the runtime chooses: the
  input is the sequence of the map's entries in that order. It stops at the first value
  that is not a string.
\<close>

fun inputsToString_loop ::
  "(sentinel \<Rightarrow> string) \<Rightarrow> (string \<rightharpoonup> string) \<Rightarrow> (string \<times> anyval) list
    \<Rightarrow> error + (string \<rightharpoonup> string)" where
  "inputsToString_loop errText inputs [] = Inr inputs"
| "inputsToString_loop errText inputs ((key, value) # rest) =
     (case value of
        VString valueStr \<Rightarrow> inputsToString_loop errText (inputs(key \<mapsto> valueStr)) rest
      | _ \<Rightarrow> Inl (ErrorfW (Error errText (Sentinel ErrExecutorInputNotString) @ '': '' @ key)
                 (Sentinel ErrExecutorInputNotString)))"

definition inputsToString ::
  "(sentinel \<Rightarrow> string) \<Rightarrow> (string \<times> anyval) list \<Rightarrow> error + (string \<rightharpoonup> string)" where
  "inputsToString errText inputValues = inputsToString_loop errText Map.empty inputValues"

text \<open>
  \<^verbatim>\<open>getNameToTool\<close>: the registry, keyed by the upper-cased names; a later tool
  replaces an earlier one of the same key. The \<^verbatim>\<open>nil\<close> map returned for no tools is
  only ever read, and reads as the empty map.
\<close>

fun getNameToTool_loop ::
  "unicodeMaps \<Rightarrow> (string \<rightharpoonup> 'w Tool) \<Rightarrow> 'w Tool list \<Rightarrow> (string \<rightharpoonup> 'w Tool)" where
  "getNameToTool_loop uc nameToTool [] = nameToTool"
| "getNameToTool_loop uc nameToTool (tool # rest) =
     getNameToTool_loop uc (nameToTool(ToUpper uc (tool_Name tool) \<mapsto> tool)) rest"

definition getNameToTool :: "unicodeMaps \<Rightarrow> 'w Tool list \<Rightarrow> (string \<rightharpoonup> 'w Tool)" where
  "getNameToTool uc t = (if length t = 0 then Map.empty else getNameToTool_loop uc Map.empty t)"

subsection \<open>Calls on the collaborators\<close>

definition callPlan ::
  "'w Executor \<Rightarrow> AgentStep list \<Rightarrow> (string \<rightharpoonup> string) \<Rightarrow> 'w state \<Rightarrow> PlanResult \<times> 'w state" where
  "callPlan e steps inputs s =
     (case Plan (Agent e) (world s) steps inputs of
        (r, w) \<Rightarrow> (r, \<lparr>world = w, trace = trace s @ [PlanCalled steps r]\<rparr>))"

definition callTool ::
  "'w Tool \<Rightarrow> AgentStep list \<Rightarrow> string \<Rightarrow> 'w state \<Rightarrow> (error + string) \<times> 'w state" where
  "callTool tool steps input s =
     (case tool_Call tool (world s) steps input of
        (r, w) \<Rightarrow> (r, \<lparr>world = w, trace = trace s @ [ToolCalled (tool_Name tool) input steps]\<rparr>))"

text \<open>The two notifications, made only when a handler is configured.\<close>

definition notifyAction :: "'w Executor \<Rightarrow> AgentAction \<Rightarrow> 'w state \<Rightarrow> 'w state" where
  "notifyAction e action s =
     (case CallbacksHandler e of
        None \<Rightarrow> s
      | Some h \<Rightarrow> \<lparr>world = HandleAgentAction h (world s) action,
                   trace = trace s @ [ActionNotified action]\<rparr>)"

definition notifyFinish ::
  "'w Executor \<Rightarrow> AgentFinish \<Rightarrow> AgentStep list \<Rightarrow> 'w state \<Rightarrow> 'w state" where
  "notifyFinish e fin steps s =
     (case CallbacksHandler e of
        None \<Rightarrow> s
      | Some h \<Rightarrow> \<lparr>world = HandleAgentFinish h (world s) fin steps,
                   trace = trace s @ [FinishNotified fin steps]\<rparr>)"

subsection \<open>The executor\<close>

definition intermediateStepsOutputKey :: string where
  "intermediateStepsOutputKey = ''intermediateSteps''"

text \<open>
  \<^verbatim>\<open>getReturn\<close> writes the steps into the return values, which panics on a \<^verbatim>\<open>nil\<close>
  map, and returns them.
\<close>

definition getReturn :: "'w Executor \<Rightarrow> AgentFinish \<Rightarrow> AgentStep list \<Rightarrow> gomap go" where
  "getReturn e fin steps =
     (if ReturnIntermediateSteps e then
        (case ReturnValues fin of
           None \<Rightarrow> Panics
         | Some m \<Rightarrow> Returns (Some (m(intermediateStepsOutputKey \<mapsto> VSteps steps))))
      else Returns (ReturnValues fin))"

definition repeatedStep :: "AgentAction \<Rightarrow> AgentStep" where
  "repeatedStep action = \<lparr>Action = action, Observation =
     ''ATTENTION: you are repeating the same action. Now, you have just 2 options: 1. Write the final answer. 2. Write a different action''\<rparr>"

text \<open>
  \<^verbatim>\<open>checkRepeatedAction\<close> looks through the steps for one of the action's tool and
  input; \<open>todo\<close> is the part of the steps still to look at.
\<close>

fun checkRepeatedAction_loop ::
  "AgentStep list \<Rightarrow> AgentStep list \<Rightarrow> AgentAction \<Rightarrow> AgentStep list \<times> error option" where
  "checkRepeatedAction_loop steps [] action = (steps, None)"
| "checkRepeatedAction_loop steps (step # todo) action =
     (if Tool (Action step) = Tool action \<and> ToolInput (Action step) = ToolInput action
      then (steps @ [repeatedStep action], Some (Errorf (''repeated action: '' @ Tool action)))
      else checkRepeatedAction_loop steps todo action)"

definition checkRepeatedAction ::
  "AgentStep list \<Rightarrow> AgentAction \<Rightarrow> AgentStep list \<times> error option" where
  "checkRepeatedAction steps action = checkRepeatedAction_loop steps steps action"

definition noneStep :: "AgentAction \<Rightarrow> AgentStep" where
  "noneStep action = \<lparr>Action = action, Observation =
     ''ATTENTION: write the final answer. use the format -> Final Answer: ''\<rparr>"

definition invalidToolStep :: "AgentAction \<Rightarrow> AgentStep" where
  "invalidToolStep action = \<lparr>Action = action, Observation =
     Tool action @ '' is not a valid tool, try another one''\<rparr>"

text \<open>
  \<^verbatim>\<open>doAction\<close>. When the tool fails, the steps returned with the error are \<^verbatim>\<open>nil\<close>,
  the empty list.
\<close>

definition doAction ::
  "unicodeMaps \<Rightarrow> 'w Executor \<Rightarrow> AgentStep list \<Rightarrow> (string \<rightharpoonup> 'w Tool) \<Rightarrow> AgentAction \<Rightarrow> 'w state
    \<Rightarrow> (AgentStep list \<times> error option) \<times> 'w state" where
  "doAction uc e steps nameToTool action s =
     (let s1 = notifyAction e action s in
      case nameToTool (ToUpper uc (Tool action)) of
        None \<Rightarrow>
          if ToLower uc (Tool action) = ''none''
          then ((steps @ [noneStep action], None), s1)
          else ((steps @ [invalidToolStep action], None), s1)
      | Some tool \<Rightarrow>
          (case callTool tool steps (ToolInput action) s1 of
             (Inl er, s2) \<Rightarrow> (([], Some er), s2)
           | (Inr observation, s2) \<Rightarrow>
               ((steps @ [\<lparr>Action = action, Observation = observation\<rparr>], None), s2)))"

text \<open>The loop of \<^verbatim>\<open>doIteration\<close> over the actions of one plan.\<close>

fun doActions ::
  "unicodeMaps \<Rightarrow> 'w Executor \<Rightarrow> AgentStep list \<Rightarrow> (string \<rightharpoonup> 'w Tool) \<Rightarrow> AgentAction list \<Rightarrow> 'w state
    \<Rightarrow> (AgentStep list \<times> gomap \<times> error option) \<times> 'w state" where
  "doActions uc e steps nameToTool [] s = ((steps, None, None), s)"
| "doActions uc e steps nameToTool (action # rest) s =
     (case checkRepeatedAction steps action of
        (steps1, Some er) \<Rightarrow> ((steps1, None, None), s)
      | (steps1, None) \<Rightarrow>
          (case doAction uc e steps1 nameToTool action s of
             ((steps2, Some er), s2) \<Rightarrow> ((steps2, None, Some er), s2)
           | ((steps2, None), s2) \<Rightarrow> doActions uc e steps2 nameToTool rest s2))"

definition doIteration ::
  "unicodeMaps \<Rightarrow> (sentinel \<Rightarrow> string) \<Rightarrow> 'w Executor \<Rightarrow> AgentStep list \<Rightarrow> (string \<rightharpoonup> 'w Tool)
    \<Rightarrow> (string \<rightharpoonup> string) \<Rightarrow> 'w state
    \<Rightarrow> (AgentStep list \<times> gomap \<times> error option) go \<times> 'w state" where
  "doIteration uc errText e steps nameToTool inputs s =
     (case callPlan e steps inputs s of (r, s1) \<Rightarrow>
        if (case err r of None \<Rightarrow> False | Some er \<Rightarrow> errors_Is er ErrUnableToParseOutput)
           \<and> ErrorHandler e \<noteq> None
        then
          (let formattedObservation = Error errText (the (err r));
               formattedObservation =
                 (case Formatter (the (ErrorHandler e)) of
                    None \<Rightarrow> formattedObservation
                  | Some f \<Rightarrow> f formattedObservation)
           in (Returns (steps @ [\<lparr>Action = zeroAction, Observation = formattedObservation\<rparr>],
                 None, None), s1))
        else if err r \<noteq> None then (Returns (steps, None, err r), s1)
        else if length (actions r) = 0 \<and> finish r = None
          then (Returns (steps, None, Some (Sentinel ErrAgentNoReturn)), s1)
        else
          (case finish r of
             Some fin \<Rightarrow>
               (let s2 = notifyFinish e fin steps s1 in
                case getReturn e fin steps of
                  Panics \<Rightarrow> (Panics, s2)
                | Returns out \<Rightarrow> (Returns (steps, out, None), s2))
           | None \<Rightarrow>
               (case doActions uc e steps nameToTool (actions r) s1 of
                  (res, s2) \<Rightarrow> (Returns res, s2))))"

definition lastChanceStep :: AgentStep where
  "lastChanceStep = \<lparr>Action = zeroAction, Observation =
     [CHR 0x0A] @ '' Important: Do you have enough data to answer? Provide the final answer '' @ [CHR 0x0A]\<rparr>"

text \<open>
  The end of the loop's body in \<^verbatim>\<open>Call\<close>: the hint added in the last iteration but one,
  when there are more than two.
\<close>

definition lastChance :: "'w Executor \<Rightarrow> int \<Rightarrow> AgentStep list \<Rightarrow> AgentStep list" where
  "lastChance e i steps =
     (if MaxIterations e > 2 \<and> i = MaxIterations e - 2 then steps @ [lastChanceStep] else steps)"

text \<open>
  The loop of \<^verbatim>\<open>Call\<close>, from iteration \<open>i\<close> on. It returns from inside (\<open>Returned\<close>),
  panics, or runs out of iterations and leaves the steps to the code after it
  (\<open>Exhausted\<close>). The counter stays between 0 and \<^verbatim>\<open>MaxIterations\<close>, so the machine
  integers do not wrap and are integers here.
\<close>

datatype loop_result =
  Returned gomap "error option"
| Exhausted "AgentStep list"

function Call_loop ::
  "unicodeMaps \<Rightarrow> (sentinel \<Rightarrow> string) \<Rightarrow> 'w Executor \<Rightarrow> (string \<rightharpoonup> 'w Tool) \<Rightarrow> (string \<rightharpoonup> string)
    \<Rightarrow> int \<Rightarrow> AgentStep list \<Rightarrow> 'w state \<Rightarrow> loop_result go \<times> 'w state" where
  "Call_loop uc errText e nameToTool inputs i steps s =
     (if i < MaxIterations e then
        (case doIteration uc errText e steps nameToTool inputs s of
           (Panics, s1) \<Rightarrow> (Panics, s1)
         | (Returns (steps1, fin, er), s1) \<Rightarrow>
             if fin \<noteq> None \<or> er \<noteq> None then (Returns (Returned fin er), s1)
             else
               Call_loop uc errText e nameToTool inputs (i + 1) (lastChance e i steps1) s1)
      else (Returns (Exhausted steps), s))"
  by pat_completeness auto
termination
  by (relation "measure (\<lambda>(uc, errText, e, nameToTool, inputs, i, steps, s). nat (MaxIterations e - i))")
     auto

definition notFinishedFinish :: "(sentinel \<Rightarrow> string) \<Rightarrow> AgentFinish" where
  "notFinishedFinish errText =
     \<lparr>ReturnValues = Some [''output'' \<mapsto> VString (Error errText (Sentinel ErrNotFinished))]\<rparr>"

definition Call ::
  "unicodeMaps \<Rightarrow> (sentinel \<Rightarrow> string) \<Rightarrow> 'w Executor \<Rightarrow> (string \<times> anyval) list \<Rightarrow> 'w state
    \<Rightarrow> (gomap \<times> error option) go \<times> 'w state" where
  "Call uc errText e inputValues s =
     (case inputsToString errText inputValues of
        Inl er \<Rightarrow> (Returns (None, Some er), s)
      | Inr inputs \<Rightarrow>
          (let nameToTool = getNameToTool uc (GetTools (Agent e)) in
           case Call_loop uc errText e nameToTool inputs 0 [] s of
             (Panics, s1) \<Rightarrow> (Panics, s1)
           | (Returns (Returned fin er), s1) \<Rightarrow> (Returns (fin, er), s1)
           | (Returns (Exhausted steps), s1) \<Rightarrow>
               (let s2 = notifyFinish e (notFinishedFinish errText) steps s1 in
                case getReturn e \<lparr>ReturnValues = Some Map.empty\<rparr> steps of
                  Panics \<Rightarrow> (Panics, s2)
                | Returns out \<Rightarrow> (Returns (out, Some (Sentinel ErrNotFinished)), s2))))"

subsection \<open>Observations on a trace\<close>

text \<open>The number of times the planner was called.\<close>

definition planCalls :: "event list \<Rightarrow> nat" where
  "planCalls evs = length (filter (\<lambda>ev. case ev of PlanCalled steps r \<Rightarrow> True | _ \<Rightarrow> False) evs)"

text \<open>
  The number of plans in a trace that came with a finish, and the number of finishes the
  handler was notified of.
\<close>

definition isFinishedPlan :: "event \<Rightarrow> bool" where
  "isFinishedPlan ev = (case ev of PlanCalled steps r \<Rightarrow> finish r \<noteq> None | _ \<Rightarrow> False)"

definition isFinishNotified :: "event \<Rightarrow> bool" where
  "isFinishNotified ev = (case ev of FinishNotified fin steps \<Rightarrow> True | _ \<Rightarrow> False)"

definition finishedPlans :: "event list \<Rightarrow> nat" where
  "finishedPlans evs = length (filter isFinishedPlan evs)"

definition finishNotifications :: "event list \<Rightarrow> nat" where
  "finishNotifications evs = length (filter isFinishNotified evs)"

text \<open>
  The ledgers that a run hands out, in the order of the trace: to the planner, to a tool
  (in its context) and to the handler with a finish. \<open>ledgerChain evs steps\<close>: each of
  them is extended by those handed out after it, and all of them by \<open>steps\<close>.
\<close>

definition ledgerOf :: "event \<Rightarrow> AgentStep list list" where
  "ledgerOf ev =
     (case ev of
        PlanCalled steps r \<Rightarrow> [steps]
      | ToolCalled n input steps \<Rightarrow> [steps]
      | ActionNotified a \<Rightarrow> []
      | FinishNotified fin steps \<Rightarrow> [steps])"

definition ledgersOf :: "event list \<Rightarrow> AgentStep list list" where
  "ledgersOf evs = concat (map ledgerOf evs)"

definition ledgerChain :: "event list \<Rightarrow> AgentStep list \<Rightarrow> bool" where
  "ledgerChain evs steps \<longleftrightarrow> sorted_wrt prefix (ledgersOf evs @ [steps])"

text \<open>The last event of a trace is the call of a tool.\<close>

definition endsInToolCall :: "event list \<Rightarrow> bool" where
  "endsInToolCall evs =
     (case rev evs of [] \<Rightarrow> False
      | ev # before \<Rightarrow> (case ev of ToolCalled n input steps \<Rightarrow> True | _ \<Rightarrow> False))"

text \<open>The type assertion \<^verbatim>\<open>value.(string)\<close> succeeds.\<close>

definition isString :: "anyval \<Rightarrow> bool" where
  "isString v = (case v of VString str \<Rightarrow> True | _ \<Rightarrow> False)"


subsection \<open>Example collaborators\<close>

text \<open>Texts for the sentinels, a planner that asks for the same sum twice, and a handler.\<close>

definition exampleTexts :: "sentinel \<Rightarrow> string" where
  "exampleTexts x =
     (case x of
        ErrExecutorInputNotString \<Rightarrow> ''input values to executor is not string''
      | ErrAgentNoReturn \<Rightarrow> ''no actions or finish was returned by the agent''
      | ErrNotFinished \<Rightarrow> ''agent not finished before max iterations''
      | ErrUnableToParseOutput \<Rightarrow> ''unable to parse agent output'')"

text \<open>
  Maps for text with bytes from 128 on that leave it as it is; the names in the examples
  have no such bytes, so the maps are never applied there.
\<close>

definition plainUnicode :: unicodeMaps where
  "plainUnicode = \<lparr>mapToUpper = (\<lambda>s. s), mapToLower = (\<lambda>s. s)\<rparr>"

definition planActions :: "AgentAction list \<Rightarrow> PlanResult" where
  "planActions acts = \<lparr>actions = acts, finish = None, err = None\<rparr>"

definition planFinish :: "AgentFinish \<Rightarrow> PlanResult" where
  "planFinish fin = \<lparr>actions = [], finish = Some fin, err = None\<rparr>"

definition planError :: "error \<Rightarrow> PlanResult" where
  "planError er = \<lparr>actions = [], finish = None, err = Some er\<rparr>"

definition calcAction :: AgentAction where
  "calcAction = \<lparr>Tool = ''calc'', ToolInput = ''2+2'', Log = []\<rparr>"

definition outputOnly :: "string \<Rightarrow> AgentFinish" where
  "outputOnly str = \<lparr>ReturnValues = Some [''output'' \<mapsto> VString str]\<rparr>"

definition calcPlanner :: "nat \<Rightarrow> AgentStep list \<Rightarrow> (string \<rightharpoonup> string) \<Rightarrow> PlanResult \<times> nat" where
  "calcPlanner w steps inputs =
     (if length steps < 2 then (planActions [calcAction], w)
      else (planFinish (outputOnly ''4''), w))"

definition recordingHandler :: "nat Handler" where
  "recordingHandler = \<lparr>HandleAgentAction = (\<lambda>w a. w + 1), HandleAgentFinish = (\<lambda>w f st. w + 100)\<rparr>"

definition calcExecutor :: "int \<Rightarrow> bool \<Rightarrow> nat Executor" where
  "calcExecutor n ris = \<lparr>Agent = \<lparr>Plan = calcPlanner, GetTools = []\<rparr>,
      CallbacksHandler = Some recordingHandler, ErrorHandler = None,
      MaxIterations = n, ReturnIntermediateSteps = ris\<rparr>"

definition start :: "nat state" where
  "start = \<lparr>world = 0, trace = []\<rparr>"

text \<open>
  A planner whose first output cannot be parsed, with the formatter of an error handler;
  tools that answer, fail, and one called \<^verbatim>\<open>None\<close>.
\<close>

definition garbledError :: error where
  "garbledError = ErrorfW ''unable to parse agent output: hm'' (Sentinel ErrUnableToParseOutput)"

definition garbledPlanner :: "nat \<Rightarrow> AgentStep list \<Rightarrow> (string \<rightharpoonup> string) \<Rightarrow> PlanResult \<times> nat" where
  "garbledPlanner w steps inputs =
     (if steps = [] then (planError garbledError, w)
      else (planFinish (outputOnly ''done''), w))"

definition retryFormatter :: "string \<Rightarrow> string" where
  "retryFormatter m = ''Parsing Error: '' @ m"

definition garbledExecutor :: "ParserErrorHandler option \<Rightarrow> nat Executor" where
  "garbledExecutor h = \<lparr>Agent = \<lparr>Plan = garbledPlanner, GetTools = []\<rparr>,
      CallbacksHandler = Some recordingHandler, ErrorHandler = h,
      MaxIterations = 2, ReturnIntermediateSteps = False\<rparr>"

definition searchTool :: "nat Tool" where
  "searchTool = \<lparr>tool_Name = ''Search'', tool_Call = (\<lambda>w steps input. (Inr ''Paris'', w + 10))\<rparr>"

definition brokenTool :: "nat Tool" where
  "brokenTool = \<lparr>tool_Name = ''fetch'',
      tool_Call = (\<lambda>w steps input. (Inl (Errorf ''connection refused''), w + 10))\<rparr>"

definition noneTool :: "nat Tool" where
  "noneTool = \<lparr>tool_Name = ''None'', tool_Call = (\<lambda>w steps input. (Inr ''nothing to do'', w + 10))\<rparr>"

definition toolAction :: "string \<Rightarrow> string \<Rightarrow> AgentAction" where
  "toolAction name input = \<lparr>Tool = name, ToolInput = input, Log = []\<rparr>"

text \<open>A planner that asks for one tool once and then finishes with the last observation.\<close>

definition oneToolPlanner ::
  "AgentAction list \<Rightarrow> nat \<Rightarrow> AgentStep list \<Rightarrow> (string \<rightharpoonup> string) \<Rightarrow> PlanResult \<times> nat" where
  "oneToolPlanner acts w steps inputs =
     (if steps = [] then (planActions acts, w)
      else (planFinish (outputOnly (Observation (last steps))), w))"

definition toolExecutor :: "nat Tool list \<Rightarrow> AgentAction list \<Rightarrow> nat Executor" where
  "toolExecutor tools acts = \<lparr>Agent = \<lparr>Plan = oneToolPlanner acts, GetTools = tools\<rparr>,
      CallbacksHandler = Some recordingHandler, ErrorHandler = None,
      MaxIterations = 5, ReturnIntermediateSteps = False\<rparr>"

text \<open>A planner with one plan for the empty ledger and another for the others.\<close>

definition thenPlanner ::
  "AgentAction list \<Rightarrow> AgentAction list \<Rightarrow> nat \<Rightarrow> AgentStep list \<Rightarrow> (string \<rightharpoonup> string)
    \<Rightarrow> PlanResult \<times> nat" where
  "thenPlanner first later w steps inputs =
     (if steps = [] then (planActions first, w) else (planActions later, w))"

definition thenExecutor :: "AgentAction list \<Rightarrow> AgentAction list \<Rightarrow> nat Executor" where
  "thenExecutor first later =
     \<lparr>Agent = \<lparr>Plan = thenPlanner first later, GetTools = [searchTool, brokenTool]\<rparr>,
      CallbacksHandler = None, ErrorHandler = None,
      MaxIterations = 5, ReturnIntermediateSteps = False\<rparr>"

definition searchStep :: AgentStep where
  "searchStep = \<lparr>Action = toolAction ''search'' ''capital of France'', Observation = ''Paris''\<rparr>"

text \<open>A planner whose finish has \<^verbatim>\<open>nil\<close> return values.\<close>

definition nilFinishPlanner :: "nat \<Rightarrow> AgentStep list \<Rightarrow> (string \<rightharpoonup> string) \<Rightarrow> PlanResult \<times> nat" where
  "nilFinishPlanner w steps inputs = (planFinish \<lparr>ReturnValues = None\<rparr>, w)"

definition nilFinishExecutor :: "bool \<Rightarrow> nat Executor" where
  "nilFinishExecutor ris =
     \<lparr>Agent = \<lparr>Plan = nilFinishPlanner, GetTools = []\<rparr>,
      CallbacksHandler = Some recordingHandler, ErrorHandler = None,
      MaxIterations = 2, ReturnIntermediateSteps = ris\<rparr>"

text \<open>
  Maps that know one word with a letter beyond ASCII, \<^verbatim>\<open>caf\<close> with an e acute
  (bytes C3 A9 in lower case, C3 89 in upper case), and a tool of that name.
\<close>

definition cafeLower :: string where
  "cafeLower = ''caf'' @ [CHR 0xC3, CHR 0xA9]"

definition cafeUpper :: string where
  "cafeUpper = ''CAF'' @ [CHR 0xC3, CHR 0x89]"

definition accentUnicode :: unicodeMaps where
  "accentUnicode =
     \<lparr>mapToUpper = (\<lambda>s. if s = cafeLower then cafeUpper else s),
      mapToLower = (\<lambda>s. if s = cafeUpper then cafeLower else s)\<rparr>"

definition cafeTool :: "nat Tool" where
  "cafeTool = \<lparr>tool_Name = cafeLower, tool_Call = (\<lambda>w steps input. (Inr ''espresso'', w + 10))\<rparr>"

section \<open>Properties\<close>

subsection \<open>The planner is called once in an iteration\<close>

declare Call_loop.simps [simp del]

lemma planCalls_append: "planCalls (xs @ ys) = planCalls xs + planCalls ys"
  by (simp add: planCalls_def)

lemma planCalls_simps:
  "planCalls [] = 0"
  "planCalls (PlanCalled st r # evs) = Suc (planCalls evs)"
  "planCalls (ToolCalled n inp st # evs) = planCalls evs"
  "planCalls (ActionNotified a # evs) = planCalls evs"
  "planCalls (FinishNotified f st # evs) = planCalls evs"
  by (simp_all add: planCalls_def)

lemma notifyAction_planCalls: "planCalls (trace (notifyAction e a s)) = planCalls (trace s)"
  by (simp add: notifyAction_def planCalls_append planCalls_simps split: option.splits)

lemma notifyFinish_planCalls: "planCalls (trace (notifyFinish e f st s)) = planCalls (trace s)"
  by (simp add: notifyFinish_def planCalls_append planCalls_simps split: option.splits)

lemma callTool_planCalls:
  "callTool t st inp s = (r, s') \<Longrightarrow> planCalls (trace s') = planCalls (trace s)"
  by (auto simp: callTool_def planCalls_append planCalls_simps split: prod.splits)

lemma doAction_planCalls:
  "doAction uc e steps n2t a s = (r, s') \<Longrightarrow> planCalls (trace s') = planCalls (trace s)"
  by (auto simp: doAction_def Let_def notifyAction_planCalls
      split: option.splits if_splits prod.splits sum.splits dest!: callTool_planCalls)

lemma doActions_planCalls:
  "doActions uc e steps n2t acts s = (r, s') \<Longrightarrow> planCalls (trace s') = planCalls (trace s)"
proof (induction acts arbitrary: steps s)
  case Nil
  then show ?case by simp
next
  case (Cons a acts)
  show ?case
  proof (cases "checkRepeatedAction steps a")
    case (Pair steps1 er)
    show ?thesis
    proof (cases er)
      case (Some x)
      with Pair Cons.prems show ?thesis by simp
    next
      case None
      obtain steps2 er2 s2 where da: "doAction uc e steps1 n2t a s = ((steps2, er2), s2)"
        by (metis prod.exhaust)
      have s2: "planCalls (trace s2) = planCalls (trace s)"
        using da by (rule doAction_planCalls)
      show ?thesis
      proof (cases er2)
        case (Some y)
        with Pair None da Cons.prems s2 show ?thesis by simp
      next
        case None2: None
        with Pair None da Cons.prems have "doActions uc e steps2 n2t acts s2 = (r, s')" by simp
        from Cons.IH [OF this] s2 show ?thesis by simp
      qed
    qed
  qed
qed

lemma callPlan_planCalls:
  "callPlan e steps inputs s = (r, s1) \<Longrightarrow> planCalls (trace s1) = Suc (planCalls (trace s))"
  by (auto simp: callPlan_def planCalls_append planCalls_simps split: prod.splits)

lemma doIteration_planCalls:
  assumes "doIteration uc errText e steps n2t inputs s = (r, s')"
  shows "planCalls (trace s') = Suc (planCalls (trace s))"
proof -
  obtain pr s1 where cp: "callPlan e steps inputs s = (pr, s1)" by (metis prod.exhaust)
  have s1: "planCalls (trace s1) = Suc (planCalls (trace s))"
    using cp by (rule callPlan_planCalls)
  obtain res s2 where das: "doActions uc e steps n2t (actions pr) s1 = (res, s2)" by (metis prod.exhaust)
  have s2: "planCalls (trace s2) = planCalls (trace s1)"
    using das by (rule doActions_planCalls)
  from assms cp das s1 s2 show ?thesis
    by (auto simp: doIteration_def Let_def notifyFinish_planCalls
        split: if_splits option.splits go.splits)
qed

lemma Call_loop_planCalls:
  "Call_loop uc errText e n2t inputs i steps s = (r, s')
    \<Longrightarrow> planCalls (trace s') \<le> planCalls (trace s) + nat (MaxIterations e - i)"
proof (induction uc errText e n2t inputs i steps s rule: Call_loop.induct)
  case (1 uc errText e n2t inputs i steps s)
  show ?case
  proof (cases "i < MaxIterations e")
    case False
    with "1.prems" show ?thesis by (simp add: Call_loop.simps)
  next
    case True
    obtain res s1 where di: "doIteration uc errText e steps n2t inputs s = (res, s1)"
      by (metis prod.exhaust)
    have s1: "planCalls (trace s1) = Suc (planCalls (trace s))"
      using di by (rule doIteration_planCalls)
    have budget: "Suc (nat (MaxIterations e - (i + 1))) = nat (MaxIterations e - i)"
      using True by simp
    show ?thesis
    proof (cases res)
      case Panics
      with "1.prems" True di s1 budget show ?thesis by (simp add: Call_loop.simps)
    next
      case (Returns t)
      obtain steps1 rest where t1: "t = (steps1, rest)" by (metis prod.exhaust)
      obtain fin er where t2: "rest = (fin, er)" by (metis prod.exhaust)
      have t: "t = (steps1, fin, er)" using t1 t2 by simp
      show ?thesis
      proof (cases "fin \<noteq> None \<or> er \<noteq> None")
        case stop: True
        with "1.prems" True di Returns t have "s' = s1"
          by (subst (asm) Call_loop.simps) auto
        with s1 budget show ?thesis by simp
      next
        case go_on: False
        let ?steps2 = "lastChance e i steps1"
        from "1.prems" True di Returns t go_on
        have "Call_loop uc errText e n2t inputs (i + 1) ?steps2 s1 = (r, s')"
          by (subst (asm) Call_loop.simps) simp
        from "1.IH" [OF True di [symmetric] Returns t1 [symmetric] t2 [symmetric] go_on this]
        have "planCalls (trace s') \<le> planCalls (trace s1) + nat (MaxIterations e - (i + 1))"
          by simp
        with s1 budget show ?thesis by simp
      qed
    qed
  qed
qed

subsection \<open>Evaluating a run\<close>

lemmas run_defs = isASCII_def planActions_def planFinish_def planError_def Call_def Call_loop.simps lastChance_def lastChanceStep_def zeroAction_def inputsToString_def getNameToTool_def doIteration_def
  callPlan_def callTool_def doAction_def checkRepeatedAction_def notifyAction_def
  notifyFinish_def getReturn_def ToUpper_def ToLower_def toUpperByte_def toLowerByte_def
  lowerLetters_def upperLetters_def invalidToolStep_def repeatedStep_def noneStep_def
  notFinishedFinish_def intermediateStepsOutputKey_def Let_def

subsection \<open>Input validation\<close>

lemma inputsToString_loop_fails:
  assumes "(k, v) \<in> set inputValues" and "\<not> isString v"
  shows "\<exists>key value. (key, value) \<in> set inputValues \<and> \<not> isString value \<and>
      inputsToString_loop errText inputs inputValues =
        Inl (ErrorfW (errText ErrExecutorInputNotString @ '': '' @ key)
              (Sentinel ErrExecutorInputNotString))"
  using assms
proof (induction inputValues arbitrary: inputs)
  case Nil
  then show ?case by simp
next
  case (Cons kv rest)
  obtain key val where kv: "kv = (key, val)" by (metis prod.exhaust)
  show ?case
  proof (cases "isString val")
    case False
    then have "inputsToString_loop errText inputs (kv # rest) =
        Inl (ErrorfW (errText ErrExecutorInputNotString @ '': '' @ key)
              (Sentinel ErrExecutorInputNotString))"
      by (simp add: kv isString_def split: anyval.splits)
    with False kv show ?thesis by auto
  next
    case True
    then obtain str where str: "val = VString str"
      by (auto simp: isString_def split: anyval.splits)
    from True Cons.prems kv have "(k, v) \<in> set rest" by auto
    from Cons.IH [OF this Cons.prems(2)]
    obtain key' val' where found: "(key', val') \<in> set rest" "\<not> isString val'"
      "inputsToString_loop errText (inputs(key \<mapsto> str)) rest =
        Inl (ErrorfW (errText ErrExecutorInputNotString @ '': '' @ key')
              (Sentinel ErrExecutorInputNotString))"
      by blast
    have step: "inputsToString_loop errText inputs (kv # rest) =
        inputsToString_loop errText (inputs(key \<mapsto> str)) rest"
      by (simp add: kv str)
    from found(1) have "(key', val') \<in> set (kv # rest)" by simp
    with found(2,3) step show ?thesis by metis
  qed
qed

text \<open>
  C8: when some value of the inputs is not a string, \<^verbatim>\<open>Call\<close> fails with an error that
  wraps \<^verbatim>\<open>ErrExecutorInputNotString\<close> and names a key whose value is not a string; the
  state of the world and the trace are as before the call, so neither the planner nor a
  tool nor the handler was called.
\<close>

theorem Call_input_not_string:
  assumes "(k, v) \<in> set inputValues" and "\<not> isString v"
  shows "\<exists>key value. (key, value) \<in> set inputValues \<and> \<not> isString value \<and>
      Call uc errText e inputValues s =
        (Returns (None, Some (ErrorfW (errText ErrExecutorInputNotString @ '': '' @ key)
            (Sentinel ErrExecutorInputNotString))), s)"
proof -
  from inputsToString_loop_fails [OF assms, of errText Map.empty]
  obtain key val where "(key, val) \<in> set inputValues" "\<not> isString val"
    "inputsToString errText inputValues =
        Inl (ErrorfW (errText ErrExecutorInputNotString @ '': '' @ key)
              (Sentinel ErrExecutorInputNotString))"
    by (auto simp: inputsToString_def)
  then show ?thesis by (auto simp: Call_def)
qed

theorem Call_input_not_string_witness:
  "Call plainUnicode exampleTexts (calcExecutor 3 False) [(''input'', VString ''2+2''), (''limit'', VOther 7)] start =
     (Returns (None, Some (ErrorfW ''input values to executor is not string: limit''
        (Sentinel ErrExecutorInputNotString))), start)"
  using Call_input_not_string [where k = "''limit''" and v = "VOther 7"
      and inputValues = "[(''input'', VString ''2+2''), (''limit'', VOther 7)]"
      and uc = plainUnicode and errText = exampleTexts and e = "calcExecutor 3 False" and s = start]
  by (auto simp: isString_def exampleTexts_def)

lemma inputsToString_loop_strings:
  "\<forall>(k, v) \<in> set inputValues. isString v \<Longrightarrow>
     \<exists>m. inputsToString_loop errText inputs inputValues = Inr m"
proof (induction inputValues arbitrary: inputs)
  case Nil
  then show ?case by simp
next
  case (Cons kv rest)
  obtain key val where kv: "kv = (key, val)" by (metis prod.exhaust)
  from Cons.prems kv obtain str where str: "val = VString str"
    by (auto simp: isString_def split: anyval.splits)
  from Cons.prems have "\<forall>(k, v) \<in> set rest. isString v" by simp
  from Cons.IH [OF this] obtain m where
    "inputsToString_loop errText (inputs(key \<mapsto> str)) rest = Inr m" by blast
  then show ?case by (simp add: kv str)
qed

lemma Call_loop_exhausted:
  "\<not> i < MaxIterations e \<Longrightarrow>
     Call_loop uc errText e n2t inputs i steps s = (Returns (Exhausted steps), s)"
  by (simp add: Call_loop.simps)

text \<open>
  C10: with \<^verbatim>\<open>MaxIterations\<close> at most 0 and inputs that are all strings, \<^verbatim>\<open>Call\<close>
  returns \<^verbatim>\<open>ErrNotFinished\<close> at once; all it does is notify the handler, when one is
  configured, of a finish whose output is the text of \<^verbatim>\<open>ErrNotFinished\<close>: no planner
  call and no tool call is in the trace.
\<close>

theorem Call_no_iterations:
  assumes "MaxIterations e \<le> 0" and "\<forall>(k, v) \<in> set inputValues. isString v"
  shows "Call uc errText e inputValues s =
      (Returns (if ReturnIntermediateSteps e then Some [intermediateStepsOutputKey \<mapsto> VSteps []]
                else Some Map.empty,
         Some (Sentinel ErrNotFinished)),
       notifyFinish e (notFinishedFinish errText) [] s)
    \<and> trace (notifyFinish e (notFinishedFinish errText) [] s) =
       trace s @ (case CallbacksHandler e of None \<Rightarrow> []
                  | Some h \<Rightarrow> [FinishNotified (notFinishedFinish errText) []])"
proof -
  from inputsToString_loop_strings [OF assms(2), of errText Map.empty]
  obtain m where m: "inputsToString errText inputValues = Inr m"
    by (auto simp: inputsToString_def)
  have "\<not> 0 < MaxIterations e" using assms(1) by simp
  from Call_loop_exhausted [OF this]
  show ?thesis
    by (simp add: Call_def m getReturn_def notifyFinish_def split: option.splits)
qed

theorem Call_no_iterations_witness:
  "Call plainUnicode exampleTexts (calcExecutor 0 False) [(''input'', VString ''2+2'')] start =
      (Returns (Some Map.empty, Some (Sentinel ErrNotFinished)),
       \<lparr>world = 100, trace = [FinishNotified (outputOnly ''agent not finished before max iterations'') []]\<rparr>)"
  using Call_no_iterations [where e = "calcExecutor 0 False"
      and inputValues = "[(''input'', VString ''2+2'')]" and uc = plainUnicode
      and errText = exampleTexts and s = start]
  by (simp add: isString_def calcExecutor_def notifyFinish_def notFinishedFinish_def start_def
      recordingHandler_def exampleTexts_def outputOnly_def)

subsection \<open>One iteration of the loop\<close>

lemma Call_loop_continue:
  assumes "i < MaxIterations e"
    and "doIteration uc errText e steps n2t inputs s = (Returns (steps1, None, None), s1)"
  shows "Call_loop uc errText e n2t inputs i steps s =
      Call_loop uc errText e n2t inputs (i + 1) (lastChance e i steps1) s1"
  using assms by (subst Call_loop.simps) simp

lemma Call_loop_return:
  assumes "i < MaxIterations e"
    and "doIteration uc errText e steps n2t inputs s = (Returns (steps1, fin, er), s1)"
    and "fin \<noteq> None \<or> er \<noteq> None"
  shows "Call_loop uc errText e n2t inputs i steps s = (Returns (Returned fin er), s1)"
  using assms by (subst Call_loop.simps) auto

lemma Call_loop_panic:
  assumes "i < MaxIterations e"
    and "doIteration uc errText e steps n2t inputs s = (Panics, s1)"
  shows "Call_loop uc errText e n2t inputs i steps s = (Panics, s1)"
  using assms by (subst Call_loop.simps) auto

lemma Call_returned:
  assumes "inputsToString errText inputValues = Inr inputs"
    and "Call_loop uc errText e (getNameToTool uc (GetTools (Agent e))) inputs 0 [] s =
      (Returns (Returned fin er), s1)"
  shows "Call uc errText e inputValues s = (Returns (fin, er), s1)"
  using assms by (simp add: Call_def)

lemma doIteration_actions:
  assumes "callPlan e steps inputs s = (r, s1)" and "err r = None" and "finish r = None"
    and "actions r \<noteq> []"
    and "doActions uc e steps n2t (actions r) s1 = (res, s2)"
  shows "doIteration uc errText e steps n2t inputs s = (Returns res, s2)"
  using assms by (simp add: doIteration_def)

subsection \<open>Repeated actions\<close>

lemma checkRepeatedAction_loop_found:
  assumes "st \<in> set todo" and "Tool (Action st) = Tool a" and "ToolInput (Action st) = ToolInput a"
  shows "checkRepeatedAction_loop steps todo a =
      (steps @ [repeatedStep a], Some (Errorf (''repeated action: '' @ Tool a)))"
  using assms by (induction todo) auto

lemma checkRepeatedAction_loop_fresh:
  assumes "\<forall>st \<in> set todo. \<not> (Tool (Action st) = Tool a \<and> ToolInput (Action st) = ToolInput a)"
  shows "checkRepeatedAction_loop steps todo a = (steps, None)"
  using assms by (induction todo) auto

lemma doActions_repeated:
  assumes "st \<in> set steps" and "Tool (Action st) = Tool a" and "ToolInput (Action st) = ToolInput a"
  shows "doActions uc e steps n2t (a # rest) s = ((steps @ [repeatedStep a], None, None), s)"
  using checkRepeatedAction_loop_found [OF assms, of steps]
  by (simp add: checkRepeatedAction_def)

text \<open>
  C1, as the code has it: when the loop over a plan's actions comes to an action whose
  tool and input are those of a step in the ledger, one cautionary step is appended and
  the iteration ends there, with no outputs and no error; the actions after it are not
  looked at, no tool is called and no handler notified. \<^verbatim>\<open>Call\<close> does not return on
  that: its loop goes on with the next iteration, on the ledger with the caution (and
  the last-chance hint, when due). The hypotheses say where the run is: in iteration
  \<open>i\<close>, whose plan \<open>r\<close> gave actions, the loop over them has come to the action \<open>a\<close>
  with the ledger \<open>steps\<close>.
\<close>

theorem repeated_action_ends_iteration:
  assumes repeated: "st \<in> set steps" "Tool (Action st) = Tool a"
      "ToolInput (Action st) = ToolInput a"
    and iteration: "i < MaxIterations e"
    and plan: "callPlan e steps0 inputs s0 = (r, s1)" "err r = None" "finish r = None"
      "actions r \<noteq> []"
    and batch: "doActions uc e steps0 n2t (actions r) s1 = doActions uc e steps n2t (a # rest) s"
  shows "checkRepeatedAction steps a =
      (steps @ [repeatedStep a], Some (Errorf (''repeated action: '' @ Tool a)))
    \<and> doActions uc e steps n2t (a # rest) s = ((steps @ [repeatedStep a], None, None), s)
    \<and> doIteration uc errText e steps0 n2t inputs s0 =
        (Returns (steps @ [repeatedStep a], None, None), s)
    \<and> Call_loop uc errText e n2t inputs i steps0 s0 =
        Call_loop uc errText e n2t inputs (i + 1) (lastChance e i (steps @ [repeatedStep a])) s"
proof (intro conjI)
  show "checkRepeatedAction steps a =
      (steps @ [repeatedStep a], Some (Errorf (''repeated action: '' @ Tool a)))"
    using checkRepeatedAction_loop_found [OF repeated] by (simp add: checkRepeatedAction_def)
  show stop: "doActions uc e steps n2t (a # rest) s = ((steps @ [repeatedStep a], None, None), s)"
    using repeated by (rule doActions_repeated)
  with batch have "doActions uc e steps0 n2t (actions r) s1 =
      ((steps @ [repeatedStep a], None, None), s)"
    by simp
  with plan show it: "doIteration uc errText e steps0 n2t inputs s0 =
      (Returns (steps @ [repeatedStep a], None, None), s)"
    by (simp add: doIteration_actions)
  with iteration show "Call_loop uc errText e n2t inputs i steps0 s0 =
      Call_loop uc errText e n2t inputs (i + 1) (lastChance e i (steps @ [repeatedStep a])) s"
    by (simp add: Call_loop_continue)
qed

text \<open>
  \<^verbatim>\<open>Call\<close> does not stop at a repeated action with empty outputs and no error. The
  planner here asks for the same sum in its first two plans and then finishes: with
  three iterations the call returns the planner's answer from a third plan, and with
  two iterations it ends in \<^verbatim>\<open>ErrNotFinished\<close>.
\<close>

theorem repeated_action_counterexample:
  "fst (Call plainUnicode exampleTexts (calcExecutor 3 False) [] start) = Returns (Some [''output'' \<mapsto> VString ''4''], None)
   \<and> fst (Call plainUnicode exampleTexts (calcExecutor 3 False) [] start) \<noteq> Returns (Some Map.empty, None)
   \<and> planCalls (trace (snd (Call plainUnicode exampleTexts (calcExecutor 3 False) [] start))) = 3
   \<and> fst (Call plainUnicode exampleTexts (calcExecutor 2 False) [] start) = Returns (Some Map.empty, Some (Sentinel ErrNotFinished))"
  by (simp add: run_defs calcExecutor_def calcPlanner_def calcAction_def start_def outputOnly_def
      recordingHandler_def planCalls_simps)


theorem repeated_action_ends_iteration_witness:
  "doIteration plainUnicode exampleTexts (calcExecutor 3 False) [invalidToolStep calcAction] Map.empty
      Map.empty start =
     (Returns ([invalidToolStep calcAction, repeatedStep calcAction], None, None),
      \<lparr>world = 0, trace = [PlanCalled [invalidToolStep calcAction] (planActions [calcAction])]\<rparr>)
   \<and> Call_loop plainUnicode exampleTexts (calcExecutor 3 False) Map.empty Map.empty 1
        [invalidToolStep calcAction] start =
      Call_loop plainUnicode exampleTexts (calcExecutor 3 False) Map.empty Map.empty 2
        [invalidToolStep calcAction, repeatedStep calcAction, lastChanceStep]
        \<lparr>world = 0, trace = [PlanCalled [invalidToolStep calcAction] (planActions [calcAction])]\<rparr>"
proof -
  let ?e = "calcExecutor 3 False"
  let ?steps = "[invalidToolStep calcAction]"
  let ?r = "planActions [calcAction]"
  let ?s = "\<lparr>world = 0::nat, trace = [PlanCalled ?steps ?r]\<rparr>"
  have same: "invalidToolStep calcAction \<in> set ?steps"
    "Tool (Action (invalidToolStep calcAction)) = Tool calcAction"
    "ToolInput (Action (invalidToolStep calcAction)) = ToolInput calcAction"
    by (simp_all add: invalidToolStep_def)
  have budget: "1 < MaxIterations ?e" by (simp add: calcExecutor_def)
  have plan: "callPlan ?e ?steps Map.empty start = (?r, ?s)"
    by (simp add: callPlan_def calcExecutor_def calcPlanner_def start_def)
  have r: "err ?r = None" "finish ?r = None" "actions ?r \<noteq> []"
    by (simp_all add: planActions_def)
  have batch: "doActions plainUnicode ?e ?steps Map.empty (actions ?r) ?s =
      doActions plainUnicode ?e ?steps Map.empty (calcAction # []) ?s"
    by (simp only: planActions_def PlanResult.select_convs)
  have hint: "lastChance ?e 1 (?steps @ [repeatedStep calcAction]) =
      [invalidToolStep calcAction, repeatedStep calcAction, lastChanceStep]"
    by (simp add: lastChance_def calcExecutor_def)
  from repeated_action_ends_iteration [OF same budget plan r batch, where errText = exampleTexts]
  show ?thesis unfolding hint by simp
qed

subsection \<open>The planner's output cannot be parsed\<close>

text \<open>
  C6: in an iteration whose plan fails with an error that is \<^verbatim>\<open>ErrUnableToParseOutput\<close>:
  with an error handler configured, the text of the error, passed through the handler's
  formatter when it has one, is appended to the ledger as the observation of a step with
  an empty action; nothing but the planner was called, no error is returned and the loop
  goes on with the next iteration. With no error handler the iteration returns the error
  and so does the loop, with \<^verbatim>\<open>nil\<close> outputs.
\<close>

theorem unparsable_output_recovered_or_fatal:
  assumes "i < MaxIterations e"
    and "Plan (Agent e) (world s) steps inputs = (r, w)"
    and "err r = Some er" and "errors_Is er ErrUnableToParseOutput"
  shows "case ErrorHandler e of
      Some h \<Rightarrow>
        doIteration uc errText e steps n2t inputs s =
          (Returns (steps @ [\<lparr>Action = zeroAction, Observation =
              (case Formatter h of None \<Rightarrow> Error errText er | Some f \<Rightarrow> f (Error errText er))\<rparr>],
            None, None),
           \<lparr>world = w, trace = trace s @ [PlanCalled steps r]\<rparr>)
        \<and> Call_loop uc errText e n2t inputs i steps s =
          Call_loop uc errText e n2t inputs (i + 1)
            (lastChance e i (steps @ [\<lparr>Action = zeroAction, Observation =
              (case Formatter h of None \<Rightarrow> Error errText er | Some f \<Rightarrow> f (Error errText er))\<rparr>]))
            \<lparr>world = w, trace = trace s @ [PlanCalled steps r]\<rparr>
    | None \<Rightarrow>
        doIteration uc errText e steps n2t inputs s =
          (Returns (steps, None, Some er), \<lparr>world = w, trace = trace s @ [PlanCalled steps r]\<rparr>)
        \<and> Call_loop uc errText e n2t inputs i steps s =
          (Returns (Returned None (Some er)), \<lparr>world = w, trace = trace s @ [PlanCalled steps r]\<rparr>)"
proof (cases "ErrorHandler e")
  case None
  have "doIteration uc errText e steps n2t inputs s =
          (Returns (steps, None, Some er), \<lparr>world = w, trace = trace s @ [PlanCalled steps r]\<rparr>)"
    using assms None by (simp add: doIteration_def callPlan_def)
  with assms(1) None show ?thesis by (simp add: Call_loop_return)
next
  case (Some h)
  have "doIteration uc errText e steps n2t inputs s =
          (Returns (steps @ [\<lparr>Action = zeroAction, Observation =
              (case Formatter h of None \<Rightarrow> Error errText er | Some f \<Rightarrow> f (Error errText er))\<rparr>],
            None, None),
           \<lparr>world = w, trace = trace s @ [PlanCalled steps r]\<rparr>)"
    using assms Some by (simp add: doIteration_def callPlan_def Let_def)
  with assms(1) Some show ?thesis by (simp add: Call_loop_continue)
qed

theorem unparsable_output_recovered_or_fatal_witness:
  "doIteration plainUnicode exampleTexts (garbledExecutor (Some \<lparr>Formatter = Some retryFormatter\<rparr>)) []
      Map.empty Map.empty start =
     (Returns ([\<lparr>Action = zeroAction,
                 Observation = ''Parsing Error: unable to parse agent output: hm''\<rparr>], None, None),
      \<lparr>world = 0, trace = [PlanCalled [] (planError garbledError)]\<rparr>)
   \<and> Call_loop plainUnicode exampleTexts (garbledExecutor (Some \<lparr>Formatter = Some retryFormatter\<rparr>))
        Map.empty Map.empty 0 [] start =
      Call_loop plainUnicode exampleTexts (garbledExecutor (Some \<lparr>Formatter = Some retryFormatter\<rparr>))
        Map.empty Map.empty 1
        [\<lparr>Action = zeroAction, Observation = ''Parsing Error: unable to parse agent output: hm''\<rparr>]
        \<lparr>world = 0, trace = [PlanCalled [] (planError garbledError)]\<rparr>
   \<and> Call_loop plainUnicode exampleTexts (garbledExecutor None) Map.empty Map.empty 0 [] start =
      (Returns (Returned None (Some garbledError)),
       \<lparr>world = 0, trace = [PlanCalled [] (planError garbledError)]\<rparr>)"
proof -
  let ?r = "planError garbledError"
  have unparsable: "errors_Is garbledError ErrUnableToParseOutput"
    by (simp add: garbledError_def)
  have with_handler:
    "Plan (Agent (garbledExecutor (Some \<lparr>Formatter = Some retryFormatter\<rparr>))) (world start) []
       Map.empty = (?r, 0)"
    by (simp add: garbledExecutor_def garbledPlanner_def start_def)
  have without: "Plan (Agent (garbledExecutor None)) (world start) [] Map.empty = (?r, 0)"
    by (simp add: garbledExecutor_def garbledPlanner_def start_def)
  have r: "err ?r = Some garbledError" by (simp add: planError_def)
  have budget: "0 < MaxIterations (garbledExecutor h)" for h
    by (simp add: garbledExecutor_def)
  have text_of: "Error exampleTexts garbledError = ''unable to parse agent output: hm''"
    by (simp add: garbledError_def)
  from unparsable_output_recovered_or_fatal [OF budget with_handler r unparsable,
      where uc = plainUnicode and errText = exampleTexts and ?n2t = Map.empty]
    unparsable_output_recovered_or_fatal [OF budget without r unparsable,
      where uc = plainUnicode and errText = exampleTexts and ?n2t = Map.empty]
  show ?thesis
    by (simp add: garbledExecutor_def text_of retryFormatter_def start_def lastChance_def)
qed

subsection \<open>The registry\<close>

lemmas byte_defs = toLowerByte_def toUpperByte_def lowerLetters_def upperLetters_def

lemma lower_n_iff: "toLowerByte c = CHR ''n'' \<longleftrightarrow> toUpperByte c = CHR ''N''"
  by (simp add: byte_defs split: if_splits)

lemma lower_o_iff: "toLowerByte c = CHR ''o'' \<longleftrightarrow> toUpperByte c = CHR ''O''"
  by (simp add: byte_defs split: if_splits)

lemma lower_e_iff: "toLowerByte c = CHR ''e'' \<longleftrightarrow> toUpperByte c = CHR ''E''"
  by (simp add: byte_defs split: if_splits)

lemma none_bytes_iff: "map toLowerByte x = ''none'' \<longleftrightarrow> map toUpperByte x = ''NONE''"
proof
  assume "map toLowerByte x = ''none''"
  then obtain c1 c2 c3 c4 where "x = [c1, c2, c3, c4]" "toLowerByte c1 = CHR ''n''"
    "toLowerByte c2 = CHR ''o''" "toLowerByte c3 = CHR ''n''" "toLowerByte c4 = CHR ''e''"
    by (auto simp: map_eq_Cons_conv)
  then show "map toUpperByte x = ''NONE''"
    by (simp add: lower_n_iff lower_o_iff lower_e_iff)
next
  assume "map toUpperByte x = ''NONE''"
  then obtain c1 c2 c3 c4 where "x = [c1, c2, c3, c4]" "toUpperByte c1 = CHR ''N''"
    "toUpperByte c2 = CHR ''O''" "toUpperByte c3 = CHR ''N''" "toUpperByte c4 = CHR ''E''"
    by (auto simp: map_eq_Cons_conv)
  then show "map toLowerByte x = ''none''"
    by (simp add: lower_n_iff lower_o_iff lower_e_iff)
qed

lemma none_iff:
  assumes "noneFolding uc"
  shows "ToLower uc x = ''none'' \<longleftrightarrow> ToUpper uc x = ''NONE''"
proof (cases "isASCII x")
  case True
  then show ?thesis by (simp add: ToLower_def ToUpper_def none_bytes_iff)
next
  case False
  with assms show ?thesis by (simp add: ToLower_def ToUpper_def noneFolding_def)
qed

lemma noneFolding_plainUnicode: "noneFolding plainUnicode"
  by (auto simp: noneFolding_def plainUnicode_def isASCII_def)

lemma getNameToTool_loop_None:
  "getNameToTool_loop uc m ts k = None \<longleftrightarrow>
     m k = None \<and> (\<forall>t \<in> set ts. ToUpper uc (tool_Name t) \<noteq> k)"
  by (induction ts arbitrary: m) auto

lemma getNameToTool_None:
  "getNameToTool uc ts k = None \<longleftrightarrow> (\<forall>t \<in> set ts. ToUpper uc (tool_Name t) \<noteq> k)"
  by (simp add: getNameToTool_def getNameToTool_loop_None)

lemma getNameToTool_loop_Some:
  "getNameToTool_loop uc m ts k = Some t \<Longrightarrow>
     m k = Some t \<or> (t \<in> set ts \<and> ToUpper uc (tool_Name t) = k)"
proof (induction ts arbitrary: m)
  case Nil
  then show ?case by simp
next
  case (Cons u ts)
  from Cons.prems have "getNameToTool_loop uc (m(ToUpper uc (tool_Name u) \<mapsto> u)) ts k = Some t"
    by simp
  from Cons.IH [OF this] show ?case
    by (cases "ToUpper uc (tool_Name u) = k") auto
qed

lemma getNameToTool_Some:
  "getNameToTool uc ts k = Some t \<Longrightarrow> t \<in> set ts \<and> ToUpper uc (tool_Name t) = k"
  using getNameToTool_loop_Some [of uc Map.empty ts k t]
  by (auto simp: getNameToTool_def split: if_splits)

lemma getNameToTool_last_wins:
  "getNameToTool uc (ts @ [t]) (ToUpper uc (tool_Name t)) = Some t"
proof -
  have "getNameToTool_loop uc m (ts @ [t]) (ToUpper uc (tool_Name t)) = Some t" for m
    by (induction ts arbitrary: m) auto
  then show ?thesis by (simp add: getNameToTool_def)
qed

subsection \<open>Dispatching an action\<close>

lemma doAction_unresolved:
  assumes "n2t (ToUpper uc (Tool a)) = None"
  shows "doAction uc e steps n2t a s =
      ((steps @ [if ToLower uc (Tool a) = ''none'' then noneStep a else invalidToolStep a], None),
       notifyAction e a s)"
  using assms by (simp add: doAction_def)

lemma doAction_resolved:
  assumes "n2t (ToUpper uc (Tool a)) = Some tool"
  shows "doAction uc e steps n2t a s =
      (case tool_Call tool (world (notifyAction e a s)) steps (ToolInput a) of
         (Inl er, w) \<Rightarrow>
           (([], Some er),
            \<lparr>world = w, trace = trace (notifyAction e a s) @ [ToolCalled (tool_Name tool) (ToolInput a) steps]\<rparr>)
       | (Inr observation, w) \<Rightarrow>
           ((steps @ [\<lparr>Action = a, Observation = observation\<rparr>], None),
            \<lparr>world = w, trace = trace (notifyAction e a s) @ [ToolCalled (tool_Name tool) (ToolInput a) steps]\<rparr>))"
  using assms by (simp add: doAction_def callTool_def split: prod.splits sum.splits)

lemma doActions_fresh:
  assumes "\<forall>st \<in> set steps. \<not> (Tool (Action st) = Tool a \<and> ToolInput (Action st) = ToolInput a)"
  shows "doActions uc e steps n2t (a # rest) s =
      (case doAction uc e steps n2t a s of
         ((steps2, Some er), s2) \<Rightarrow> ((steps2, None, Some er), s2)
       | ((steps2, None), s2) \<Rightarrow> doActions uc e steps2 n2t rest s2)"
  using checkRepeatedAction_loop_fresh [OF assms, of steps]
  by (simp add: checkRepeatedAction_def)


text \<open>
  C7, as the code has it. An action that is not a repetition is dispatched. When no
  registered tool has its name (compared in upper case), exactly one step is appended,
  no tool is called and the loop over the actions goes on: the step says that the tool is
  not valid, unless the name is \<^verbatim>\<open>none\<close> in some casing, where it asks for the final
  answer. When the tool is found and its call fails, the tool was called once, the
  iteration returns that very error with \<^verbatim>\<open>nil\<close> steps and outputs, the rest of the
  actions are skipped, and the loop of \<^verbatim>\<open>Call\<close>, and \<^verbatim>\<open>Call\<close>, return the error
  with \<^verbatim>\<open>nil\<close> outputs. (When the call succeeds, the step with its observation is
  appended.) The hypotheses say where the call is: in iteration \<open>i\<close> of the call that
  started in \<open>s00\<close>, whose plan gave actions, at the action \<open>a\<close> of them. The names
  are any byte strings and the maps \<open>uc\<close> for text beyond ASCII are any maps: which
  tool has a name is the registry's comparison of the upper cases, as in the code.
\<close>

theorem unresolved_tool_continues_failed_tool_aborts:
  assumes fresh: "\<forall>st \<in> set steps. \<not> (Tool (Action st) = Tool a \<and> ToolInput (Action st) = ToolInput a)"
    and n2t: "n2t = getNameToTool uc (GetTools (Agent e))"
    and inputs: "inputsToString errText inputValues = Inr inputs"
    and iteration: "Call_loop uc errText e n2t inputs 0 [] s00 = Call_loop uc errText e n2t inputs i steps0 s0"
      "i < MaxIterations e"
    and plan: "callPlan e steps0 inputs s0 = (r, s1)" "err r = None" "finish r = None"
      "actions r \<noteq> []"
    and batch: "doActions uc e steps0 n2t (actions r) s1 = doActions uc e steps n2t (a # rest) s"
  shows "case n2t (ToUpper uc (Tool a)) of
      None \<Rightarrow>
        (\<forall>t \<in> set (GetTools (Agent e)). ToUpper uc (tool_Name t) \<noteq> ToUpper uc (Tool a))
        \<and> doAction uc e steps n2t a s =
            ((steps @ [if ToLower uc (Tool a) = ''none'' then noneStep a else invalidToolStep a], None),
             notifyAction e a s)
        \<and> doActions uc e steps n2t (a # rest) s =
            doActions uc e
              (steps @ [if ToLower uc (Tool a) = ''none'' then noneStep a else invalidToolStep a])
              n2t rest (notifyAction e a s)
    | Some tool \<Rightarrow>
        (case tool_Call tool (world (notifyAction e a s)) steps (ToolInput a) of
           (Inl er, w) \<Rightarrow>
             doAction uc e steps n2t a s =
               (([], Some er),
                \<lparr>world = w, trace = trace (notifyAction e a s)
                   @ [ToolCalled (tool_Name tool) (ToolInput a) steps]\<rparr>)
             \<and> doActions uc e steps n2t (a # rest) s =
               (([], None, Some er),
                \<lparr>world = w, trace = trace (notifyAction e a s)
                   @ [ToolCalled (tool_Name tool) (ToolInput a) steps]\<rparr>)
             \<and> Call uc errText e inputValues s00 =
               (Returns (None, Some er),
                \<lparr>world = w, trace = trace (notifyAction e a s)
                   @ [ToolCalled (tool_Name tool) (ToolInput a) steps]\<rparr>)
         | (Inr observation, w) \<Rightarrow>
             doAction uc e steps n2t a s =
               ((steps @ [\<lparr>Action = a, Observation = observation\<rparr>], None),
                \<lparr>world = w, trace = trace (notifyAction e a s)
                   @ [ToolCalled (tool_Name tool) (ToolInput a) steps]\<rparr>))"
proof (cases "n2t (ToUpper uc (Tool a))")
  case None
  have "\<forall>t \<in> set (GetTools (Agent e)). ToUpper uc (tool_Name t) \<noteq> ToUpper uc (Tool a)"
    using None n2t by (simp add: getNameToTool_None)
  moreover have da: "doAction uc e steps n2t a s =
            ((steps @ [if ToLower uc (Tool a) = ''none'' then noneStep a else invalidToolStep a], None),
             notifyAction e a s)"
    using None by (rule doAction_unresolved)
  moreover have "doActions uc e steps n2t (a # rest) s =
            doActions uc e
              (steps @ [if ToLower uc (Tool a) = ''none'' then noneStep a else invalidToolStep a])
              n2t rest (notifyAction e a s)"
    by (simp only: doActions_fresh [OF fresh] da) simp
  ultimately show ?thesis using None by simp
next
  case (Some tool)
  obtain res w where tc: "tool_Call tool (world (notifyAction e a s)) steps (ToolInput a) = (res, w)"
    by (metis prod.exhaust)
  let ?s2 = "\<lparr>world = w, trace = trace (notifyAction e a s)
                   @ [ToolCalled (tool_Name tool) (ToolInput a) steps]\<rparr>"
  show ?thesis
  proof (cases res)
    case (Inr observation)
    have "doAction uc e steps n2t a s =
        ((steps @ [\<lparr>Action = a, Observation = observation\<rparr>], None), ?s2)"
      using tc Inr Some by (simp add: doAction_resolved)
    with Some tc Inr show ?thesis by simp
  next
    case (Inl er)
    have da: "doAction uc e steps n2t a s = (([], Some er), ?s2)"
      using tc Inl Some by (simp add: doAction_resolved)
    have das: "doActions uc e steps n2t (a # rest) s = (([], None, Some er), ?s2)"
      by (simp only: doActions_fresh [OF fresh] da) simp
    with batch have "doActions uc e steps0 n2t (actions r) s1 = (([], None, Some er), ?s2)"
      by simp
    with plan have "doIteration uc errText e steps0 n2t inputs s0 = (Returns ([], None, Some er), ?s2)"
      by (simp add: doIteration_actions)
    with iteration have "Call_loop uc errText e n2t inputs 0 [] s00 =
        (Returns (Returned None (Some er)), ?s2)"
      by (simp add: Call_loop_return)
    with inputs n2t have "Call uc errText e inputValues s00 = (Returns (None, Some er), ?s2)"
      by (simp add: Call_returned)
    with da das Some tc Inl show ?thesis by simp
  qed
qed

theorem unresolved_tool_continues_failed_tool_aborts_witness:
  "doActions plainUnicode (toolExecutor [searchTool, brokenTool] [toolAction ''footool'' ''x'', toolAction ''search'' ''y''])
      [] (getNameToTool plainUnicode [searchTool, brokenTool])
      [toolAction ''footool'' ''x'', toolAction ''search'' ''y'']
      \<lparr>world = 0, trace = [PlanCalled []
         (planActions [toolAction ''footool'' ''x'', toolAction ''search'' ''y''])]\<rparr> =
    doActions plainUnicode (toolExecutor [searchTool, brokenTool] [toolAction ''footool'' ''x'', toolAction ''search'' ''y''])
      [\<lparr>Action = toolAction ''footool'' ''x'',
         Observation = ''footool is not a valid tool, try another one''\<rparr>]
      (getNameToTool plainUnicode [searchTool, brokenTool]) [toolAction ''search'' ''y'']
      \<lparr>world = 1, trace = [PlanCalled []
         (planActions [toolAction ''footool'' ''x'', toolAction ''search'' ''y'']),
         ActionNotified (toolAction ''footool'' ''x'')]\<rparr>
   \<and> Call plainUnicode exampleTexts
        (toolExecutor [searchTool, brokenTool] [toolAction ''FETCH'' ''x'', toolAction ''search'' ''y''])
        [] start =
      (Returns (None, Some (Errorf ''connection refused'')),
       \<lparr>world = 11, trace = [PlanCalled []
          (planActions [toolAction ''FETCH'' ''x'', toolAction ''search'' ''y'']),
          ActionNotified (toolAction ''FETCH'' ''x''), ToolCalled ''fetch'' ''x'' []]\<rparr>)
   \<and> doAction accentUnicode (toolExecutor [cafeTool] [toolAction cafeUpper ''x'']) []
        (getNameToTool accentUnicode [cafeTool]) (toolAction cafeUpper ''x'')
        \<lparr>world = 0, trace = [PlanCalled [] (planActions [toolAction cafeUpper ''x''])]\<rparr> =
      (([\<lparr>Action = toolAction cafeUpper ''x'', Observation = ''espresso''\<rparr>], None),
       \<lparr>world = 11, trace = [PlanCalled [] (planActions [toolAction cafeUpper ''x'']),
          ActionNotified (toolAction cafeUpper ''x''), ToolCalled cafeLower ''x'' []]\<rparr>)"
proof -
  let ?tools = "[searchTool, brokenTool]"
  let ?n2t = "getNameToTool plainUnicode ?tools"
  let ?foo = "toolAction ''footool'' ''x''"
  let ?fetch = "toolAction ''FETCH'' ''x''"
  let ?search = "toolAction ''search'' ''y''"
  let ?r1 = "planActions [?foo, ?search]"
  let ?r2 = "planActions [?fetch, ?search]"
  let ?s1 = "\<lparr>world = 0::nat, trace = [PlanCalled [] ?r1]\<rparr>"
  let ?s2 = "\<lparr>world = 0::nat, trace = [PlanCalled [] ?r2]\<rparr>"
  let ?e1 = "toolExecutor ?tools [?foo, ?search]"
  let ?e2 = "toolExecutor ?tools [?fetch, ?search]"
  have look_foo: "?n2t (ToUpper plainUnicode (Tool ?foo)) = None"
    by (simp add: run_defs toolAction_def searchTool_def brokenTool_def)
  have look_fetch: "?n2t (ToUpper plainUnicode (Tool ?fetch)) = Some brokenTool"
    by (simp add: run_defs toolAction_def searchTool_def brokenTool_def)
  have tools1: "?n2t = getNameToTool plainUnicode (GetTools (Agent ?e1))" by (simp add: toolExecutor_def)
  have tools2: "?n2t = getNameToTool plainUnicode (GetTools (Agent ?e2))" by (simp add: toolExecutor_def)
  have fresh: "\<forall>st \<in> set []. \<not> (Tool (Action st) = Tool b \<and> ToolInput (Action st) = ToolInput b)"
    for b :: AgentAction
    by simp
  have inputs: "inputsToString exampleTexts [] = Inr Map.empty"
    by (simp add: inputsToString_def)
  have plan1: "callPlan ?e1 [] Map.empty start = (?r1, ?s1)"
    by (simp add: callPlan_def toolExecutor_def oneToolPlanner_def start_def)
  have plan2: "callPlan ?e2 [] Map.empty start = (?r2, ?s2)"
    by (simp add: callPlan_def toolExecutor_def oneToolPlanner_def start_def)
  have r1: "err ?r1 = None" "finish ?r1 = None" "actions ?r1 \<noteq> []"
    by (simp_all add: planActions_def)
  have r2: "err ?r2 = None" "finish ?r2 = None" "actions ?r2 \<noteq> []"
    by (simp_all add: planActions_def)
  have batch1: "doActions plainUnicode ?e1 [] ?n2t (actions ?r1) ?s1 = doActions plainUnicode ?e1 [] ?n2t (?foo # [?search]) ?s1"
    by (simp only: planActions_def PlanResult.select_convs)
  have batch2: "doActions plainUnicode ?e2 [] ?n2t (actions ?r2) ?s2 = doActions plainUnicode ?e2 [] ?n2t (?fetch # [?search]) ?s2"
    by (simp only: planActions_def PlanResult.select_convs)
  have budget1: "0 < MaxIterations ?e1" by (simp add: toolExecutor_def)
  have budget2: "0 < MaxIterations ?e2" by (simp add: toolExecutor_def)
  have note1: "notifyAction ?e1 ?foo ?s1 =
      \<lparr>world = 1, trace = [PlanCalled [] ?r1, ActionNotified ?foo]\<rparr>"
    by (simp add: notifyAction_def toolExecutor_def recordingHandler_def)
  have note2: "notifyAction ?e2 ?fetch ?s2 =
      \<lparr>world = 1, trace = [PlanCalled [] ?r2, ActionNotified ?fetch]\<rparr>"
    by (simp add: notifyAction_def toolExecutor_def recordingHandler_def)
  have lower: "ToLower plainUnicode (Tool ?foo) \<noteq> ''none''"
    by (simp add: run_defs toolAction_def)
  have call: "tool_Call brokenTool w st inp = (Inl (Errorf ''connection refused''), w + 10)"
    for w st inp
    by (simp add: brokenTool_def)
  from unresolved_tool_continues_failed_tool_aborts
    [where steps = "[]" and a = ?foo and rest = "[?search]" and s = ?s1,
      OF fresh tools1 inputs refl budget1 plan1 r1 batch1]
  have first: "doActions plainUnicode ?e1 [] ?n2t [?foo, ?search] ?s1 =
      doActions plainUnicode ?e1 [invalidToolStep ?foo] ?n2t [?search]
        \<lparr>world = 1, trace = [PlanCalled [] ?r1, ActionNotified ?foo]\<rparr>"
    unfolding look_foo note1 using lower by simp
  have step: "invalidToolStep ?foo =
      \<lparr>Action = ?foo, Observation = ''footool is not a valid tool, try another one''\<rparr>"
    by (simp add: invalidToolStep_def toolAction_def)
  from unresolved_tool_continues_failed_tool_aborts
    [where steps = "[]" and a = ?fetch and rest = "[?search]" and s = ?s2,
      OF fresh tools2 inputs refl budget2 plan2 r2 batch2]
  have second: "Call plainUnicode exampleTexts ?e2 [] start =
      (Returns (None, Some (Errorf ''connection refused'')),
       \<lparr>world = 11, trace = [PlanCalled [] ?r2, ActionNotified ?fetch,
          ToolCalled (tool_Name brokenTool) (ToolInput ?fetch) []]\<rparr>)"
    unfolding look_fetch note2 by (simp add: call)
  have names: "tool_Name brokenTool = ''fetch''" "ToolInput ?fetch = ''x''"
    by (simp_all add: brokenTool_def toolAction_def)
  let ?cafe = "toolAction cafeUpper ''x''"
  let ?n2t3 = "getNameToTool accentUnicode [cafeTool]"
  let ?r3 = "planActions [?cafe]"
  let ?s3 = "\<lparr>world = 0::nat, trace = [PlanCalled [] ?r3]\<rparr>"
  let ?e3 = "toolExecutor [cafeTool] [?cafe]"
  have look_cafe: "?n2t3 (ToUpper accentUnicode (Tool ?cafe)) = Some cafeTool"
    by (simp add: run_defs accentUnicode_def cafeTool_def cafeLower_def cafeUpper_def
        toolAction_def)
  have tools3: "?n2t3 = getNameToTool accentUnicode (GetTools (Agent ?e3))"
    by (simp add: toolExecutor_def)
  have plan3: "callPlan ?e3 [] Map.empty start = (?r3, ?s3)"
    by (simp add: callPlan_def toolExecutor_def oneToolPlanner_def start_def)
  have r3: "err ?r3 = None" "finish ?r3 = None" "actions ?r3 \<noteq> []"
    by (simp_all add: planActions_def)
  have batch3: "doActions accentUnicode ?e3 [] ?n2t3 (actions ?r3) ?s3 =
      doActions accentUnicode ?e3 [] ?n2t3 (?cafe # []) ?s3"
    by (simp only: planActions_def PlanResult.select_convs)
  have budget3: "0 < MaxIterations ?e3" by (simp add: toolExecutor_def)
  have note3: "notifyAction ?e3 ?cafe ?s3 =
      \<lparr>world = 1, trace = [PlanCalled [] ?r3, ActionNotified ?cafe]\<rparr>"
    by (simp add: notifyAction_def toolExecutor_def recordingHandler_def)
  have call3: "tool_Call cafeTool w st inp = (Inr ''espresso'', w + 10)" for w st inp
    by (simp add: cafeTool_def)
  from unresolved_tool_continues_failed_tool_aborts
    [where steps = "[]" and a = ?cafe and rest = "[]" and s = ?s3,
      OF fresh tools3 inputs refl budget3 plan3 r3 batch3]
  have third: "doAction accentUnicode ?e3 [] ?n2t3 ?cafe ?s3 =
      (([\<lparr>Action = ?cafe, Observation = ''espresso''\<rparr>], None),
       \<lparr>world = 11, trace = [PlanCalled [] ?r3, ActionNotified ?cafe,
          ToolCalled (tool_Name cafeTool) (ToolInput ?cafe) []]\<rparr>)"
    unfolding look_cafe note3 by (simp add: call3)
  have names3: "tool_Name cafeTool = cafeLower" "ToolInput ?cafe = ''x''"
    by (simp_all add: cafeTool_def toolAction_def)
  from first second third show ?thesis unfolding step names names3 by simp
qed

text \<open>
  The step for a name that no tool has does not always say that the tool is invalid:
  for \<^verbatim>\<open>None\<close>, with no such tool registered, it asks for the final answer.
\<close>

theorem unresolved_none_counterexample:
  "getNameToTool plainUnicode [searchTool, brokenTool] (ToUpper plainUnicode ''None'') = None
   \<and> doAction plainUnicode (toolExecutor [searchTool, brokenTool] []) [] (getNameToTool plainUnicode [searchTool, brokenTool])
        (toolAction ''None'' ''x'') start =
      (([\<lparr>Action = toolAction ''None'' ''x'',
           Observation = ''ATTENTION: write the final answer. use the format -> Final Answer: ''\<rparr>],
        None),
       \<lparr>world = 1, trace = [ActionNotified (toolAction ''None'' ''x'')]\<rparr>)
   \<and> invalidToolStep (toolAction ''None'' ''x'') =
      \<lparr>Action = toolAction ''None'' ''x'', Observation = ''None is not a valid tool, try another one''\<rparr>
   \<and> fst (fst (doAction plainUnicode (toolExecutor [searchTool, brokenTool] []) []
        (getNameToTool plainUnicode [searchTool, brokenTool]) (toolAction ''None'' ''x'') start)) \<noteq>
      [invalidToolStep (toolAction ''None'' ''x'')]"
  by (simp add: run_defs toolAction_def searchTool_def brokenTool_def toolExecutor_def
      recordingHandler_def start_def)


subsection \<open>The sentinel and the registry\<close>

text \<open>The lookup comes first, whatever the name: a tool that the registry has is called.\<close>

lemma doAction_lookup_first:
  "if \<exists>t \<in> set tools. ToUpper uc (tool_Name t) = ToUpper uc (Tool a)
    then \<exists>tool. tool \<in> set tools \<and> ToUpper uc (tool_Name tool) = ToUpper uc (Tool a)
        \<and> getNameToTool uc tools (ToUpper uc (Tool a)) = Some tool
        \<and> doAction uc e steps (getNameToTool uc tools) a s =
          (case tool_Call tool (world (notifyAction e a s)) steps (ToolInput a) of
             (Inl er, w) \<Rightarrow>
               (([], Some er),
                \<lparr>world = w, trace = trace (notifyAction e a s)
                   @ [ToolCalled (tool_Name tool) (ToolInput a) steps]\<rparr>)
           | (Inr observation, w) \<Rightarrow>
               ((steps @ [\<lparr>Action = a, Observation = observation\<rparr>], None),
                \<lparr>world = w, trace = trace (notifyAction e a s)
                   @ [ToolCalled (tool_Name tool) (ToolInput a) steps]\<rparr>))
    else doAction uc e steps (getNameToTool uc tools) a s =
        ((steps @ [if ToLower uc (Tool a) = ''none'' then noneStep a else invalidToolStep a], None),
         notifyAction e a s)"
proof (cases "\<exists>t \<in> set tools. ToUpper uc (tool_Name t) = ToUpper uc (Tool a)")
  case True
  then have "getNameToTool uc tools (ToUpper uc (Tool a)) \<noteq> None"
    by (auto simp: getNameToTool_None)
  then obtain tool where look: "getNameToTool uc tools (ToUpper uc (Tool a)) = Some tool" by auto
  from getNameToTool_Some [OF look]
  have "tool \<in> set tools" "ToUpper uc (tool_Name tool) = ToUpper uc (Tool a)"
    by simp_all
  moreover have "doAction uc e steps (getNameToTool uc tools) a s =
          (case tool_Call tool (world (notifyAction e a s)) steps (ToolInput a) of
             (Inl er, w) \<Rightarrow>
               (([], Some er),
                \<lparr>world = w, trace = trace (notifyAction e a s)
                   @ [ToolCalled (tool_Name tool) (ToolInput a) steps]\<rparr>)
           | (Inr observation, w) \<Rightarrow>
               ((steps @ [\<lparr>Action = a, Observation = observation\<rparr>], None),
                \<lparr>world = w, trace = trace (notifyAction e a s)
                   @ [ToolCalled (tool_Name tool) (ToolInput a) steps]\<rparr>))"
    using look by (rule doAction_resolved)
  ultimately show ?thesis using look True by auto
next
  case False
  then have "getNameToTool uc tools (ToUpper uc (Tool a)) = None"
    by (simp add: getNameToTool_None)
  then have "doAction uc e steps (getNameToTool uc tools) a s =
      ((steps @ [if ToLower uc (Tool a) = ''none'' then noneStep a else invalidToolStep a], None),
       notifyAction e a s)"
    by (rule doAction_unresolved)
  with False show ?thesis by simp
qed

text \<open>
  C9: the registry is looked up before the name is compared with \<^verbatim>\<open>none\<close>. For an
  action whose tool name is \<^verbatim>\<open>none\<close> in some casing (its lower case is \<^verbatim>\<open>none\<close>):
  when a registered tool has the name in the registry's comparison (the upper cases are
  the same), the registry gives such a tool and \<^verbatim>\<open>doAction\<close> calls it as it calls any
  tool (its error is returned, its observation appended); only when no registered tool
  has the name is the step that asks for the final answer appended, and no tool called.
  That holds whatever the Unicode maps are. With what the maps of the library do about
  \<^verbatim>\<open>none\<close> (\<open>noneFolding\<close>), the tools that have the name are the tools whose name is
  \<^verbatim>\<open>none\<close> in some casing: when such a tool is registered, a tool of such a name is
  called, and only when none is registered is the final answer asked for.
\<close>

theorem registered_none_tool_is_called:
  assumes "ToLower uc (Tool a) = ''none''"
  shows "(if \<exists>t \<in> set tools. ToUpper uc (tool_Name t) = ToUpper uc (Tool a)
    then \<exists>tool. tool \<in> set tools \<and> ToUpper uc (tool_Name tool) = ToUpper uc (Tool a)
        \<and> getNameToTool uc tools (ToUpper uc (Tool a)) = Some tool
        \<and> doAction uc e steps (getNameToTool uc tools) a s =
          (case tool_Call tool (world (notifyAction e a s)) steps (ToolInput a) of
             (Inl er, w) \<Rightarrow>
               (([], Some er),
                \<lparr>world = w, trace = trace (notifyAction e a s)
                   @ [ToolCalled (tool_Name tool) (ToolInput a) steps]\<rparr>)
           | (Inr observation, w) \<Rightarrow>
               ((steps @ [\<lparr>Action = a, Observation = observation\<rparr>], None),
                \<lparr>world = w, trace = trace (notifyAction e a s)
                   @ [ToolCalled (tool_Name tool) (ToolInput a) steps]\<rparr>))
    else doAction uc e steps (getNameToTool uc tools) a s =
        ((steps @ [noneStep a], None), notifyAction e a s))
   \<and> (noneFolding uc \<longrightarrow>
    (if \<exists>t \<in> set tools. ToLower uc (tool_Name t) = ''none''
    then \<exists>tool. tool \<in> set tools \<and> ToLower uc (tool_Name tool) = ''none''
        \<and> getNameToTool uc tools (ToUpper uc (Tool a)) = Some tool
        \<and> doAction uc e steps (getNameToTool uc tools) a s =
          (case tool_Call tool (world (notifyAction e a s)) steps (ToolInput a) of
             (Inl er, w) \<Rightarrow>
               (([], Some er),
                \<lparr>world = w, trace = trace (notifyAction e a s)
                   @ [ToolCalled (tool_Name tool) (ToolInput a) steps]\<rparr>)
           | (Inr observation, w) \<Rightarrow>
               ((steps @ [\<lparr>Action = a, Observation = observation\<rparr>], None),
                \<lparr>world = w, trace = trace (notifyAction e a s)
                   @ [ToolCalled (tool_Name tool) (ToolInput a) steps]\<rparr>))
    else doAction uc e steps (getNameToTool uc tools) a s =
        ((steps @ [noneStep a], None), notifyAction e a s)))"
proof (intro conjI impI)
  note first = doAction_lookup_first [of tools uc a e steps s]
  show lookup: "if \<exists>t \<in> set tools. ToUpper uc (tool_Name t) = ToUpper uc (Tool a)
    then \<exists>tool. tool \<in> set tools \<and> ToUpper uc (tool_Name tool) = ToUpper uc (Tool a)
        \<and> getNameToTool uc tools (ToUpper uc (Tool a)) = Some tool
        \<and> doAction uc e steps (getNameToTool uc tools) a s =
          (case tool_Call tool (world (notifyAction e a s)) steps (ToolInput a) of
             (Inl er, w) \<Rightarrow>
               (([], Some er),
                \<lparr>world = w, trace = trace (notifyAction e a s)
                   @ [ToolCalled (tool_Name tool) (ToolInput a) steps]\<rparr>)
           | (Inr observation, w) \<Rightarrow>
               ((steps @ [\<lparr>Action = a, Observation = observation\<rparr>], None),
                \<lparr>world = w, trace = trace (notifyAction e a s)
                   @ [ToolCalled (tool_Name tool) (ToolInput a) steps]\<rparr>))
    else doAction uc e steps (getNameToTool uc tools) a s =
        ((steps @ [noneStep a], None), notifyAction e a s)"
    using first assms by (simp split: if_splits)
  assume folding: "noneFolding uc"
  have upper: "ToUpper uc (Tool a) = ''NONE''"
    using assms none_iff [OF folding] by simp
  have same: "(ToUpper uc (tool_Name t) = ToUpper uc (Tool a)) = (ToLower uc (tool_Name t) = ''none'')"
    for t :: "'a Tool"
    using none_iff [OF folding, of "tool_Name t"] upper by simp
  from lookup show "if \<exists>t \<in> set tools. ToLower uc (tool_Name t) = ''none''
    then \<exists>tool. tool \<in> set tools \<and> ToLower uc (tool_Name tool) = ''none''
        \<and> getNameToTool uc tools (ToUpper uc (Tool a)) = Some tool
        \<and> doAction uc e steps (getNameToTool uc tools) a s =
          (case tool_Call tool (world (notifyAction e a s)) steps (ToolInput a) of
             (Inl er, w) \<Rightarrow>
               (([], Some er),
                \<lparr>world = w, trace = trace (notifyAction e a s)
                   @ [ToolCalled (tool_Name tool) (ToolInput a) steps]\<rparr>)
           | (Inr observation, w) \<Rightarrow>
               ((steps @ [\<lparr>Action = a, Observation = observation\<rparr>], None),
                \<lparr>world = w, trace = trace (notifyAction e a s)
                   @ [ToolCalled (tool_Name tool) (ToolInput a) steps]\<rparr>))
    else doAction uc e steps (getNameToTool uc tools) a s =
        ((steps @ [noneStep a], None), notifyAction e a s)"
    unfolding same .
qed

theorem registered_none_tool_is_called_witness:
  "doAction plainUnicode (toolExecutor [noneTool, searchTool] []) [] (getNameToTool plainUnicode [noneTool, searchTool])
      (toolAction ''NONE'' ''x'') start =
     (([\<lparr>Action = toolAction ''NONE'' ''x'', Observation = ''nothing to do''\<rparr>], None),
      \<lparr>world = 11, trace = [ActionNotified (toolAction ''NONE'' ''x''), ToolCalled ''None'' ''x'' []]\<rparr>)
   \<and> doAction plainUnicode (toolExecutor [searchTool] []) [] (getNameToTool plainUnicode [searchTool])
      (toolAction ''NONE'' ''x'') start =
     (([noneStep (toolAction ''NONE'' ''x'')], None),
      \<lparr>world = 1, trace = [ActionNotified (toolAction ''NONE'' ''x'')]\<rparr>)"
proof -
  let ?a = "toolAction ''NONE'' ''x''"
  let ?e1 = "toolExecutor [noneTool, searchTool] []"
  let ?e2 = "toolExecutor [searchTool] []"
  have lower: "ToLower plainUnicode (Tool ?a) = ''none''"
    by (simp add: toolAction_def ToLower_def isASCII_def byte_defs)
  have names: "ToLower plainUnicode (tool_Name noneTool) = ''none''" "ToLower plainUnicode (tool_Name searchTool) \<noteq> ''none''"
    by (simp_all add: noneTool_def searchTool_def ToLower_def isASCII_def byte_defs)
  have look: "getNameToTool plainUnicode [noneTool, searchTool] (ToUpper plainUnicode (Tool ?a)) = Some noneTool"
    by (simp add: getNameToTool_def toolAction_def noneTool_def searchTool_def ToUpper_def isASCII_def
        byte_defs)
  have notified: "notifyAction ?e1 ?a start = \<lparr>world = 1, trace = [ActionNotified ?a]\<rparr>"
    "notifyAction ?e2 ?a start = \<lparr>world = 1, trace = [ActionNotified ?a]\<rparr>"
    by (simp_all add: notifyAction_def toolExecutor_def recordingHandler_def start_def)
  have call: "tool_Call noneTool w st inp = (Inr ''nothing to do'', w + 10)" for w st inp
    by (simp add: noneTool_def)
  from registered_none_tool_is_called [OF lower, where tools = "[noneTool, searchTool]"
      and e = ?e1 and steps = "[]" and s = start,
      THEN conjunct2, THEN mp, OF noneFolding_plainUnicode]
  have first: "doAction plainUnicode ?e1 [] (getNameToTool plainUnicode [noneTool, searchTool]) ?a start =
     (([\<lparr>Action = ?a, Observation = ''nothing to do''\<rparr>], None),
      \<lparr>world = 11, trace = [ActionNotified ?a, ToolCalled (tool_Name noneTool) (ToolInput ?a) []]\<rparr>)"
    unfolding look notified using names by (auto simp: call)
  from registered_none_tool_is_called [OF lower, where tools = "[searchTool]"
      and e = ?e2 and steps = "[]" and s = start,
      THEN conjunct2, THEN mp, OF noneFolding_plainUnicode]
  have second: "doAction plainUnicode ?e2 [] (getNameToTool plainUnicode [searchTool]) ?a start =
     (([noneStep ?a], None), \<lparr>world = 1, trace = [ActionNotified ?a]\<rparr>)"
    unfolding notified using names by simp
  have "tool_Name noneTool = ''None''" "ToolInput ?a = ''x''"
    by (simp_all add: noneTool_def toolAction_def)
  with first second show ?thesis by simp
qed

subsection \<open>Running out of iterations\<close>

text \<open>
  In a part of a run, the handler is notified of a finish at most as often as the planner
  gave one; the counts of the two kinds of event in the traces before and after say so.
\<close>

lemma finishedPlans_append: "finishedPlans (xs @ ys) = finishedPlans xs + finishedPlans ys"
  by (simp add: finishedPlans_def)

lemma finishNotifications_append:
  "finishNotifications (xs @ ys) = finishNotifications xs + finishNotifications ys"
  by (simp add: finishNotifications_def)

lemma finishedPlans_simps:
  "finishedPlans [] = 0"
  "finish r = None \<Longrightarrow> finishedPlans (PlanCalled st r # evs) = finishedPlans evs"
  "finish r = Some f \<Longrightarrow> finishedPlans (PlanCalled st r # evs) = Suc (finishedPlans evs)"
  "finishedPlans (ToolCalled n inp st # evs) = finishedPlans evs"
  "finishedPlans (ActionNotified a # evs) = finishedPlans evs"
  "finishedPlans (FinishNotified fin st # evs) = finishedPlans evs"
  by (simp_all add: finishedPlans_def isFinishedPlan_def)

lemma finishNotifications_simps:
  "finishNotifications [] = 0"
  "finishNotifications (PlanCalled st r # evs) = finishNotifications evs"
  "finishNotifications (ToolCalled n inp st # evs) = finishNotifications evs"
  "finishNotifications (ActionNotified a # evs) = finishNotifications evs"
  "finishNotifications (FinishNotified fin st # evs) = Suc (finishNotifications evs)"
  by (simp_all add: finishNotifications_def isFinishNotified_def)

lemmas count_simps = finishedPlans_append finishNotifications_append finishedPlans_simps
  finishNotifications_simps

lemma notifyAction_counts:
  "finishedPlans (trace (notifyAction e a s)) = finishedPlans (trace s)"
  "finishNotifications (trace (notifyAction e a s)) = finishNotifications (trace s)"
  by (simp_all add: notifyAction_def count_simps split: option.splits)

lemma doAction_counts:
  assumes "doAction uc e steps n2t a s = (r, s')"
  shows "finishedPlans (trace s') = finishedPlans (trace s)
    \<and> finishNotifications (trace s') = finishNotifications (trace s)"
  using assms
  by (auto simp: doAction_def Let_def callTool_def notifyAction_counts count_simps
      split: option.splits if_splits prod.splits sum.splits)

lemma doActions_counts:
  "doActions uc e steps n2t acts s = (r, s') \<Longrightarrow>
     finishedPlans (trace s') = finishedPlans (trace s)
     \<and> finishNotifications (trace s') = finishNotifications (trace s)"
proof (induction acts arbitrary: steps s)
  case Nil
  then show ?case by simp
next
  case (Cons a acts)
  obtain steps1 er where chk: "checkRepeatedAction steps a = (steps1, er)" by (metis prod.exhaust)
  show ?case
  proof (cases er)
    case (Some x)
    with chk Cons.prems show ?thesis by simp
  next
    case None
    obtain steps2 er2 s2 where da: "doAction uc e steps1 n2t a s = ((steps2, er2), s2)"
      by (metis prod.exhaust)
    note s2 = doAction_counts [OF da]
    show ?thesis
    proof (cases er2)
      case (Some y)
      with chk None da Cons.prems s2 show ?thesis by simp
    next
      case None2: None
      with chk None da Cons.prems have "doActions uc e steps2 n2t acts s2 = (r, s')" by simp
      from Cons.IH [OF this] s2 show ?thesis by simp
    qed
  qed
qed

lemma doIteration_counts:
  assumes "doIteration uc errText e steps n2t inputs s = (r, s')"
  shows "finishNotifications (trace s) \<le> finishNotifications (trace s')
    \<and> finishNotifications (trace s') + finishedPlans (trace s)
      \<le> finishNotifications (trace s) + finishedPlans (trace s')"
proof -
  obtain pr s1 where cp: "callPlan e steps inputs s = (pr, s1)" by (metis prod.exhaust)
  then have s1: "trace s1 = trace s @ [PlanCalled steps pr]"
    by (auto simp: callPlan_def split: prod.splits)
  obtain res s2 where das: "doActions uc e steps n2t (actions pr) s1 = (res, s2)"
    by (metis prod.exhaust)
  note s2 = doActions_counts [OF das]
  show ?thesis
  proof (cases "finish pr")
    case None
    with assms cp das s1 s2 show ?thesis
      by (auto simp: doIteration_def Let_def notifyFinish_def count_simps
          split: if_splits option.splits go.splits)
  next
    case (Some fin)
    with assms cp das s1 s2 show ?thesis
      by (auto simp: doIteration_def Let_def notifyFinish_def count_simps
          split: if_splits option.splits go.splits)
  qed
qed

lemma Call_loop_counts:
  "Call_loop uc errText e n2t inputs i steps s = (r, s') \<Longrightarrow>
     finishNotifications (trace s) \<le> finishNotifications (trace s')
     \<and> finishNotifications (trace s') + finishedPlans (trace s)
       \<le> finishNotifications (trace s) + finishedPlans (trace s')"
proof (induction uc errText e n2t inputs i steps s rule: Call_loop.induct)
  case (1 uc errText e n2t inputs i steps s)
  show ?case
  proof (cases "i < MaxIterations e")
    case False
    with "1.prems" show ?thesis by (simp add: Call_loop.simps)
  next
    case True
    obtain res s1 where di: "doIteration uc errText e steps n2t inputs s = (res, s1)"
      by (metis prod.exhaust)
    note s1 = doIteration_counts [OF di]
    show ?thesis
    proof (cases res)
      case Panics
      with "1.prems" True di s1 show ?thesis by (simp add: Call_loop.simps)
    next
      case (Returns t)
      obtain steps1 rest where t1: "t = (steps1, rest)" by (metis prod.exhaust)
      obtain fin er where t2: "rest = (fin, er)" by (metis prod.exhaust)
      show ?thesis
      proof (cases "fin \<noteq> None \<or> er \<noteq> None")
        case stop: True
        with "1.prems" True di Returns t1 t2 have "s' = s1"
          by (subst (asm) Call_loop.simps) auto
        with s1 show ?thesis by simp
      next
        case go_on: False
        from "1.prems" True di Returns t1 t2 go_on
        have "Call_loop uc errText e n2t inputs (i + 1) (lastChance e i steps1) s1 = (r, s')"
          by (subst (asm) Call_loop.simps) simp
        from "1.IH" [OF True di [symmetric] Returns t1 [symmetric] t2 [symmetric] go_on this] s1
        show ?thesis by simp
      qed
    qed
  qed
qed

text \<open>
  C4, as the code has it: when the loop of \<^verbatim>\<open>Call\<close> runs out of iterations,
  \<^verbatim>\<open>Call\<close> returns \<^verbatim>\<open>ErrNotFinished\<close> with outputs that are empty when
  \<^verbatim>\<open>ReturnIntermediateSteps\<close> is not set, and that hold the ledger under
  \<^verbatim>\<open>intermediateSteps\<close>, and nothing else, when it is set; the last thing the call does
  is to notify the handler, when one is configured, of a finish whose output is the text
  of \<^verbatim>\<open>ErrNotFinished\<close>, and when no plan of the run came with a finish that is the
  only finish the handler was notified of in the call.
\<close>

theorem exhausted_returns_not_finished:
  assumes inputs: "inputsToString errText inputValues = Inr inputs"
    and exhausted: "Call_loop uc errText e (getNameToTool uc (GetTools (Agent e))) inputs 0 [] s =
      (Returns (Exhausted steps), s1)"
  shows "Call uc errText e inputValues s =
        (Returns (if ReturnIntermediateSteps e
                  then Some [intermediateStepsOutputKey \<mapsto> VSteps steps]
                  else Some Map.empty,
                  Some (Sentinel ErrNotFinished)),
         notifyFinish e (notFinishedFinish errText) steps s1)
      \<and> trace (notifyFinish e (notFinishedFinish errText) steps s1) =
          trace s1 @ (case CallbacksHandler e of None \<Rightarrow> []
           | Some h \<Rightarrow> [FinishNotified (notFinishedFinish errText) steps])
      \<and> (if finishedPlans (trace s1) = finishedPlans (trace s)
          then finishNotifications (trace (notifyFinish e (notFinishedFinish errText) steps s1)) =
                 finishNotifications (trace s)
                 + (case CallbacksHandler e of None \<Rightarrow> 0 | Some h \<Rightarrow> 1)
          else True)"
proof -
  let ?s2 = "notifyFinish e (notFinishedFinish errText) steps s1"
  have call: "Call uc errText e inputValues s =
        (Returns (if ReturnIntermediateSteps e
                  then Some [intermediateStepsOutputKey \<mapsto> VSteps steps]
                  else Some Map.empty,
                  Some (Sentinel ErrNotFinished)), ?s2)"
    using inputs exhausted by (simp add: Call_def getReturn_def)
  have tr: "trace ?s2 = trace s1 @ (case CallbacksHandler e of None \<Rightarrow> []
           | Some h \<Rightarrow> [FinishNotified (notFinishedFinish errText) steps])"
    by (simp add: notifyFinish_def split: option.splits)
  have "finishNotifications (trace ?s2) = finishNotifications (trace s)
                 + (case CallbacksHandler e of None \<Rightarrow> 0 | Some h \<Rightarrow> 1)"
    if "finishedPlans (trace s1) = finishedPlans (trace s)"
    using Call_loop_counts [OF exhausted] that
    by (simp add: tr count_simps split: option.splits)
  with call tr show ?thesis by simp
qed

theorem exhausted_returns_not_finished_witness:
  "fst (Call plainUnicode exampleTexts (calcExecutor 1 False) [] start) =
     Returns (Some Map.empty, Some (Sentinel ErrNotFinished))
   \<and> trace (snd (Call plainUnicode exampleTexts (calcExecutor 1 False) [] start)) =
     [PlanCalled [] (planActions [calcAction]), ActionNotified calcAction,
      FinishNotified (notFinishedFinish exampleTexts) [invalidToolStep calcAction]]
   \<and> finishNotifications (trace (snd (Call plainUnicode exampleTexts (calcExecutor 1 False) [] start))) = 1"
proof -
  let ?e = "calcExecutor 1 False"
  let ?s1 = "\<lparr>world = 1::nat, trace = [PlanCalled [] (planActions [calcAction]), ActionNotified calcAction]\<rparr>"
  have inputs: "inputsToString exampleTexts [] = Inr Map.empty"
    by (simp add: inputsToString_def)
  have loop: "Call_loop plainUnicode exampleTexts ?e (getNameToTool plainUnicode (GetTools (Agent ?e))) Map.empty 0 [] start =
      (Returns (Exhausted [invalidToolStep calcAction]), ?s1)"
    by (simp add: run_defs calcExecutor_def calcPlanner_def calcAction_def start_def
        recordingHandler_def)
  have none: "finishedPlans (trace ?s1) = finishedPlans (trace start)"
    by (simp add: start_def finishedPlans_simps planActions_def)
  have config: "ReturnIntermediateSteps ?e = False" "CallbacksHandler ?e = Some recordingHandler"
    by (simp_all add: calcExecutor_def)
  from exhausted_returns_not_finished [OF inputs loop] none
  show ?thesis by (simp add: config start_def finishNotifications_simps)
qed

text \<open>
  The outputs are not always empty when the iterations run out: with
  \<^verbatim>\<open>ReturnIntermediateSteps\<close> set they hold the ledger.
\<close>

theorem exhausted_outputs_counterexample:
  "fst (Call plainUnicode exampleTexts (calcExecutor 1 True) [] start) =
     Returns (Some [''intermediateSteps'' \<mapsto> VSteps [invalidToolStep calcAction]],
       Some (Sentinel ErrNotFinished))
   \<and> Some [''intermediateSteps'' \<mapsto> VSteps [invalidToolStep calcAction]] \<noteq> Some Map.empty"
  by (simp add: run_defs calcExecutor_def calcPlanner_def calcAction_def start_def
      recordingHandler_def)

subsection \<open>The ledger\<close>

lemma ledgersOf_append: "ledgersOf (xs @ ys) = ledgersOf xs @ ledgersOf ys"
  by (simp add: ledgersOf_def)

lemma ledgersOf_simps:
  "ledgersOf [] = []"
  "ledgersOf (PlanCalled st r # evs) = st # ledgersOf evs"
  "ledgersOf (ToolCalled n inp st # evs) = st # ledgersOf evs"
  "ledgersOf (ActionNotified a # evs) = ledgersOf evs"
  "ledgersOf (FinishNotified fin st # evs) = st # ledgersOf evs"
  by (simp_all add: ledgersOf_def ledgerOf_def)

lemma ledgerChain_iff:
  "ledgerChain evs steps \<longleftrightarrow>
     sorted_wrt prefix (ledgersOf evs) \<and> (\<forall>l \<in> set (ledgersOf evs). prefix l steps)"
  by (auto simp: ledgerChain_def sorted_wrt_append)

lemma ledgerChain_grow:
  "ledgerChain evs steps \<Longrightarrow> prefix steps steps' \<Longrightarrow> ledgerChain evs steps'"
  by (auto simp: ledgerChain_iff intro: prefix_order.trans)

lemma ledgerChain_snoc:
  "ledgerChain evs steps \<Longrightarrow> ledgerChain (evs @ [PlanCalled steps r]) steps"
  "ledgerChain evs steps \<Longrightarrow> ledgerChain (evs @ [ToolCalled n inp steps]) steps"
  "ledgerChain evs steps \<Longrightarrow> ledgerChain (evs @ [FinishNotified fin steps]) steps"
  "ledgerChain evs steps \<Longrightarrow> ledgerChain (evs @ [ActionNotified a]) steps"
  by (auto simp: ledgerChain_iff ledgersOf_append ledgersOf_simps sorted_wrt_append)

lemma endsInToolCall_snoc:
  "endsInToolCall (evs @ [ToolCalled n inp st])"
  "\<not> endsInToolCall (evs @ [PlanCalled st r])"
  "\<not> endsInToolCall (evs @ [FinishNotified fin st])"
  "\<not> endsInToolCall (evs @ [ActionNotified a])"
  by (simp_all add: endsInToolCall_def)

lemma notifyAction_chain:
  "ledgerChain (trace s) steps \<Longrightarrow> ledgerChain (trace (notifyAction e a s)) steps"
  by (simp add: notifyAction_def ledgerChain_snoc split: option.splits)

lemma notifyFinish_chain:
  "ledgerChain (trace s) steps \<Longrightarrow> ledgerChain (trace (notifyFinish e fin steps s)) steps"
  by (simp add: notifyFinish_def ledgerChain_snoc split: option.splits)

lemma callPlan_chain:
  "callPlan e steps inputs s = (r, s1) \<Longrightarrow> ledgerChain (trace s) steps \<Longrightarrow>
     ledgerChain (trace s1) steps \<and> \<not> endsInToolCall (trace s1)"
  by (auto simp: callPlan_def ledgerChain_snoc endsInToolCall_snoc split: prod.splits)

lemma doAction_chain:
  assumes "ledgerChain (trace s) steps" and "doAction uc e steps n2t a s = ((steps', er), s')"
  shows "ledgerChain (trace s') steps \<and> (er \<noteq> None \<longrightarrow> endsInToolCall (trace s'))"
proof -
  note start = notifyAction_chain [OF assms(1), of e a]
  show ?thesis
  proof (cases "n2t (ToUpper uc (Tool a))")
    case None
    with assms(2) start show ?thesis by (auto simp: doAction_def Let_def split: if_splits)
  next
    case (Some tool)
    obtain res w where tc: "tool_Call tool (world (notifyAction e a s)) steps (ToolInput a) = (res, w)"
      by (metis prod.exhaust)
    have "ledgerChain (trace (notifyAction e a s) @ [ToolCalled (tool_Name tool) (ToolInput a) steps]) steps"
      using start by (rule ledgerChain_snoc)
    with assms(2) Some tc show ?thesis
      by (auto simp: doAction_def Let_def callTool_def endsInToolCall_snoc split: sum.splits)
  qed
qed

lemma checkRepeatedAction_loop_result:
  "checkRepeatedAction_loop steps todo a = (steps, None)
    \<or> checkRepeatedAction_loop steps todo a =
        (steps @ [repeatedStep a], Some (Errorf (''repeated action: '' @ Tool a)))"
  by (induction todo) auto

lemma checkRepeatedAction_prefix: "prefix steps (fst (checkRepeatedAction steps a))"
  using checkRepeatedAction_loop_result [of steps steps a]
  by (auto simp: checkRepeatedAction_def)

lemma doAction_ledger:
  "case doAction uc e steps n2t a s of
     ((steps', None), s') \<Rightarrow> prefix steps steps' \<and> length steps' = Suc (length steps)
   | ((steps', Some er), s') \<Rightarrow> steps' = []"
  by (simp add: doAction_def Let_def callTool_def split: option.splits prod.splits sum.splits)

lemma lastChance_prefix: "prefix steps (lastChance e i steps)"
  by (simp add: lastChance_def)


lemma doActions_chain:
  assumes "ledgerChain (trace s) steps"
    and "doActions uc e steps n2t acts s = ((steps', fin, er), s')"
  shows "fin = None \<and> (\<exists>kept. prefix steps kept \<and> ledgerChain (trace s') kept
      \<and> (case er of None \<Rightarrow> steps' = kept
          | Some x \<Rightarrow> steps' = [] \<and> endsInToolCall (trace s')))"
  using assms
proof (induction acts arbitrary: steps s)
  case Nil
  then show ?case by auto
next
  case (Cons a acts)
  obtain steps1 cer where chk: "checkRepeatedAction steps a = (steps1, cer)"
    by (metis prod.exhaust)
  with checkRepeatedAction_prefix [of steps a] have p1: "prefix steps steps1" by simp
  with Cons.prems(1) have c1: "ledgerChain (trace s) steps1" by (rule ledgerChain_grow)
  show ?case
  proof (cases cer)
    case (Some x)
    with chk Cons.prems(2) p1 c1 show ?thesis by auto
  next
    case None
    obtain steps2 er2 s2 where da: "doAction uc e steps1 n2t a s = ((steps2, er2), s2)"
      by (metis prod.exhaust)
    note after = doAction_chain [OF c1 da]
    from doAction_ledger [where uc = uc and e = e and steps = steps1 and ?n2t = n2t and a = a and s = s] da
    have led: "case er2 of None \<Rightarrow> prefix steps1 steps2 | Some x \<Rightarrow> steps2 = []"
      by (simp split: option.splits)
    show ?thesis
    proof (cases er2)
      case (Some y)
      with chk None da Cons.prems(2) after led p1 show ?thesis by auto
    next
      case None2: None
      with led have p2: "prefix steps1 steps2" by simp
      with after have c2: "ledgerChain (trace s2) steps2" by (auto intro: ledgerChain_grow)
      from chk None da None2 Cons.prems(2)
      have rest: "doActions uc e steps2 n2t acts s2 = ((steps', fin, er), s')" by simp
      from Cons.IH [OF c2 rest] obtain kept where
        "fin = None" "prefix steps2 kept" "ledgerChain (trace s') kept"
        "case er of None \<Rightarrow> steps' = kept | Some x \<Rightarrow> steps' = [] \<and> endsInToolCall (trace s')"
        by blast
      moreover from p1 p2 \<open>prefix steps2 kept\<close> have "prefix steps kept"
        by (blast intro: prefix_order.trans)
      ultimately show ?thesis by blast
    qed
  qed
qed

lemma doIteration_chain:
  assumes chain: "ledgerChain (trace s) steps"
    and run: "doIteration uc errText e steps n2t inputs s = (res, s')"
  shows "\<exists>kept. prefix steps kept \<and> ledgerChain (trace s') kept
      \<and> (case res of
            Panics \<Rightarrow> True
          | Returns (steps', fin, None) \<Rightarrow> steps' = kept
          | Returns (steps', fin, Some x) \<Rightarrow>
              fin = None \<and> (if endsInToolCall (trace s') then steps' = [] else steps' = steps))"
proof -
  obtain r s1 where cp: "callPlan e steps inputs s = (r, s1)" by (metis prod.exhaust)
  note planned = callPlan_chain [OF cp chain]
  let ?rec = "(case err r of None \<Rightarrow> False | Some er \<Rightarrow> errors_Is er ErrUnableToParseOutput)
        \<and> ErrorHandler e \<noteq> None"
  show ?thesis
  proof (cases ?rec)
    case True
    with run cp obtain st where "res = Returns (steps @ [st], None, None)" "s' = s1"
      by (auto simp: doIteration_def Let_def)
    with planned show ?thesis
      by (auto intro!: exI [of _ "steps @ [st]"] intro: ledgerChain_grow)
  next
    case norec: False
    show ?thesis
    proof (cases "err r")
      case (Some er)
      with norec run cp have "res = Returns (steps, None, err r)" "s' = s1"
        by (auto simp: doIteration_def Let_def)
      with planned Some show ?thesis by (auto intro!: exI [of _ steps])
    next
      case None
      show ?thesis
      proof (cases "finish r")
        case (Some fin)
        with None run cp have "s' = notifyFinish e fin steps s1"
          "res = Panics \<or> (\<exists>out. res = Returns (steps, out, None))"
          by (auto simp: doIteration_def Let_def split: go.splits)
        with planned notifyFinish_chain [of s1 steps e fin] show ?thesis
          by (auto intro!: exI [of _ steps])
      next
        case nofin: None
        show ?thesis
        proof (cases "actions r = []")
          case True
          with None nofin run cp
          have "res = Returns (steps, None, Some (Sentinel ErrAgentNoReturn))" "s' = s1"
            by (auto simp: doIteration_def Let_def)
          with planned show ?thesis by (auto intro!: exI [of _ steps])
        next
          case False
          obtain steps3 fin3 er3 s3 where das:
            "doActions uc e steps n2t (actions r) s1 = ((steps3, fin3, er3), s3)"
            by (metis prod.exhaust)
          with run cp None nofin False have "res = Returns (steps3, fin3, er3)" "s' = s3"
            by (auto simp: doIteration_def Let_def)
          with doActions_chain [OF _ das] planned show ?thesis
            by (auto split: option.splits)
        qed
      qed
    qed
  qed
qed

lemma Call_loop_chain:
  "ledgerChain (trace s) steps \<Longrightarrow> Call_loop uc errText e n2t inputs i steps s = (r, s') \<Longrightarrow>
     \<exists>kept. prefix steps kept \<and> ledgerChain (trace s') kept
       \<and> (\<forall>steps'. r = Returns (Exhausted steps') \<longrightarrow> steps' = kept)"
proof (induction uc errText e n2t inputs i steps s rule: Call_loop.induct)
  case (1 uc errText e n2t inputs i steps s)
  show ?case
  proof (cases "i < MaxIterations e")
    case False
    with "1.prems" show ?thesis by (auto simp: Call_loop.simps)
  next
    case True
    obtain res s1 where di: "doIteration uc errText e steps n2t inputs s = (res, s1)"
      by (metis prod.exhaust)
    from doIteration_chain [OF "1.prems"(1) di] obtain kept1 where kept1:
      "prefix steps kept1" "ledgerChain (trace s1) kept1"
      "case res of Panics \<Rightarrow> True | Returns (steps', fin, None) \<Rightarrow> steps' = kept1
        | Returns (steps', fin, Some x) \<Rightarrow>
            fin = None \<and> (if endsInToolCall (trace s1) then steps' = [] else steps' = steps)"
      by blast
    show ?thesis
    proof (cases res)
      case Panics
      with "1.prems"(2) True di have "r = Panics" "s' = s1"
        by (simp_all add: Call_loop_panic)
      with kept1 show ?thesis by auto
    next
      case (Returns t)
      obtain steps1 rest where t1: "t = (steps1, rest)" by (metis prod.exhaust)
      obtain fin er where t2: "rest = (fin, er)" by (metis prod.exhaust)
      show ?thesis
      proof (cases "fin \<noteq> None \<or> er \<noteq> None")
        case stop: True
        with "1.prems"(2) True di Returns t1 t2 have "r = Returns (Returned fin er)" "s' = s1"
          by (simp_all add: Call_loop_return)
        with kept1 show ?thesis by auto
      next
        case go_on: False
        with True di Returns t1 t2 "1.prems"(2)
        have next_it: "Call_loop uc errText e n2t inputs (i + 1) (lastChance e i steps1) s1 = (r, s')"
          by (simp add: Call_loop_continue)
        from kept1(3) Returns t1 t2 go_on have "steps1 = kept1" by simp
        with kept1 have c1: "ledgerChain (trace s1) (lastChance e i steps1)"
          and p1: "prefix steps (lastChance e i steps1)"
          using lastChance_prefix [of steps1 e i]
          by (auto intro: ledgerChain_grow prefix_order.trans)
        from "1.IH" [OF True di [symmetric] Returns t1 [symmetric] t2 [symmetric] go_on c1 next_it]
        obtain kept where "prefix (lastChance e i steps1) kept" "ledgerChain (trace s') kept"
          "\<forall>steps'. r = Returns (Exhausted steps') \<longrightarrow> steps' = kept"
          by blast
        with p1 show ?thesis by (blast intro: prefix_order.trans)
      qed
    qed
  qed
qed

lemma Call_chain:
  assumes "ledgerChain (trace s) []"
  shows "sorted_wrt prefix (ledgersOf (trace (snd (Call uc errText e inputValues s))))"
proof (cases "inputsToString errText inputValues")
  case (Inl er)
  with assms show ?thesis by (simp add: Call_def ledgerChain_iff)
next
  case (Inr inputs)
  obtain r s1 where cl:
    "Call_loop uc errText e (getNameToTool uc (GetTools (Agent e))) inputs 0 [] s = (r, s1)"
    by (metis prod.exhaust)
  from Call_loop_chain [OF assms cl] obtain kept where kept:
    "ledgerChain (trace s1) kept" "\<forall>steps'. r = Returns (Exhausted steps') \<longrightarrow> steps' = kept"
    by blast
  show ?thesis
  proof (cases r)
    case Panics
    with Inr cl kept show ?thesis by (simp add: Call_def ledgerChain_iff)
  next
    case (Returns lr)
    show ?thesis
    proof (cases lr)
      case (Returned fin er)
      with Returns Inr cl kept show ?thesis by (simp add: Call_def ledgerChain_iff)
    next
      case (Exhausted steps')
      with Returns kept have "ledgerChain (trace s1) steps'" by simp
      then have "ledgerChain (trace (notifyFinish e (notFinishedFinish errText) steps' s1)) steps'"
        by (rule notifyFinish_chain)
      with Returns Exhausted Inr cl show ?thesis
        by (simp add: Call_def getReturn_def ledgerChain_iff)
    qed
  qed
qed

lemma doActions_ledger:
  "case doActions uc e steps n2t acts s of
     ((steps', fin, None), s') \<Rightarrow> prefix steps steps'
   | ((steps', fin, Some er), s') \<Rightarrow> steps' = []"
proof (induction acts arbitrary: steps s)
  case Nil
  show ?case by simp
next
  case (Cons a acts)
  obtain steps1 er where chk: "checkRepeatedAction steps a = (steps1, er)" by (metis prod.exhaust)
  with checkRepeatedAction_prefix [of steps a] have p1: "prefix steps steps1" by simp
  show ?case
  proof (cases er)
    case (Some x)
    with chk p1 show ?thesis by simp
  next
    case None
    obtain steps2 er2 s2 where da: "doAction uc e steps1 n2t a s = ((steps2, er2), s2)"
      by (metis prod.exhaust)
    show ?thesis
    proof (cases er2)
      case (Some y)
      with doAction_ledger [where uc = uc and e = e and steps = steps1 and ?n2t = n2t and a = a and s = s] da chk None show ?thesis by simp
    next
      case None2: None
      with doAction_ledger [where uc = uc and e = e and steps = steps1 and ?n2t = n2t and a = a and s = s] da have "prefix steps1 steps2" by simp
      with p1 have p2: "prefix steps steps2" by (rule prefix_order.trans)
      obtain steps3 fin er3 s3 where das: "doActions uc e steps2 n2t acts s2 = ((steps3, fin, er3), s3)"
        by (metis prod.exhaust)
      from Cons.IH [where steps = steps2 and s = s2] das p2 have
        "case er3 of None \<Rightarrow> prefix steps steps3 | Some er \<Rightarrow> steps3 = []"
        by (auto split: option.splits intro: prefix_order.trans)
      with chk None da None2 das show ?thesis by (simp split: option.splits)
    qed
  qed
qed

lemma doIteration_ledger:
  "case doIteration uc errText e steps n2t inputs s of
     (Panics, s') \<Rightarrow> True
   | (Returns (steps', fin, None), s') \<Rightarrow> prefix steps steps'
   | (Returns (steps', fin, Some er), s') \<Rightarrow> steps' = steps \<or> steps' = []"
proof -
  obtain r s1 where cp: "callPlan e steps inputs s = (r, s1)" by (metis prod.exhaust)
  obtain steps3 fin er3 s3 where das: "doActions uc e steps n2t (actions r) s1 = ((steps3, fin, er3), s3)"
    by (metis prod.exhaust)
  with doActions_ledger [where uc = uc and e = e and steps = steps and ?n2t = n2t and acts = "actions r" and s = s1]
  have "case er3 of None \<Rightarrow> prefix steps steps3 | Some er \<Rightarrow> steps3 = []"
    by (simp split: option.splits)
  with cp das show ?thesis
    by (auto simp: doIteration_def Let_def getReturn_def split: option.splits go.splits)
qed

lemma Call_loop_ledger:
  "case Call_loop uc errText e n2t inputs i steps s of
     (Returns (Exhausted steps'), s') \<Rightarrow> prefix steps steps'
   | _ \<Rightarrow> True"
proof (induction uc errText e n2t inputs i steps s rule: Call_loop.induct)
  case (1 uc errText e n2t inputs i steps s)
  show ?case
  proof (cases "i < MaxIterations e")
    case False
    then show ?thesis by (simp add: Call_loop.simps)
  next
    case True
    obtain res s1 where di: "doIteration uc errText e steps n2t inputs s = (res, s1)"
      by (metis prod.exhaust)
    show ?thesis
    proof (cases res)
      case Panics
      with True di show ?thesis by (simp add: Call_loop.simps)
    next
      case (Returns t)
      obtain steps1 rest where t1: "t = (steps1, rest)" by (metis prod.exhaust)
      obtain fin er where t2: "rest = (fin, er)" by (metis prod.exhaust)
      show ?thesis
      proof (cases "fin \<noteq> None \<or> er \<noteq> None")
        case stop: True
        with True di Returns t1 t2
        have "Call_loop uc errText e n2t inputs i steps s = (Returns (Returned fin er), s1)"
          by (simp add: Call_loop_return)
        then show ?thesis by simp
      next
        case go_on: False
        with True di Returns t1 t2
        have step: "Call_loop uc errText e n2t inputs i steps s =
            Call_loop uc errText e n2t inputs (i + 1) (lastChance e i steps1) s1"
          by (simp add: Call_loop_continue)
        from doIteration_ledger [where uc = uc and errText = errText and e = e and steps = steps and ?n2t = n2t and inputs = inputs and s = s] di Returns t1 t2 go_on
        have "prefix steps steps1" by simp
        then have "prefix steps (lastChance e i steps1)"
          using lastChance_prefix by (rule prefix_order.trans)
        with "1.IH" [OF True di [symmetric] Returns t1 [symmetric] t2 [symmetric] go_on]
        show ?thesis unfolding step
          by (auto split: prod.splits go.splits loop_result.splits intro: prefix_order.trans)
      qed
    qed
  qed
qed


lemma doAction_error:
  assumes "doAction uc e steps n2t a s = ((steps', Some er), s')"
  shows "steps' = [] \<and> endsInToolCall (trace s')"
  using assms
  by (auto simp: doAction_def Let_def callTool_def endsInToolCall_snoc
      split: option.splits if_splits prod.splits sum.splits)

lemma doActions_error:
  "doActions uc e steps n2t acts s = ((steps', fin, Some er), s') \<Longrightarrow>
     steps' = [] \<and> fin = None \<and> endsInToolCall (trace s')"
proof (induction acts arbitrary: steps s)
  case Nil
  then show ?case by simp
next
  case (Cons a acts)
  obtain steps1 cer where chk: "checkRepeatedAction steps a = (steps1, cer)"
    by (metis prod.exhaust)
  show ?case
  proof (cases cer)
    case (Some x)
    with chk Cons.prems show ?thesis by simp
  next
    case None
    obtain steps2 er2 s2 where da: "doAction uc e steps1 n2t a s = ((steps2, er2), s2)"
      by (metis prod.exhaust)
    show ?thesis
    proof (cases er2)
      case (Some y)
      with chk None da Cons.prems doAction_error [of uc e steps1 n2t a s steps2 y s2]
      show ?thesis by simp
    next
      case None2: None
      with chk None da Cons.prems
      have "doActions uc e steps2 n2t acts s2 = ((steps', fin, Some er), s')" by simp
      then show ?thesis by (rule Cons.IH)
    qed
  qed
qed

lemma doIteration_error:
  assumes "doIteration uc errText e steps n2t inputs s = (Returns (steps', fin, Some er), s')"
  shows "fin = None \<and> (if endsInToolCall (trace s') then steps' = [] else steps' = steps)"
proof -
  obtain r s1 where cp: "callPlan e steps inputs s = (r, s1)" by (metis prod.exhaust)
  then have s1: "\<not> endsInToolCall (trace s1)"
    by (auto simp: callPlan_def endsInToolCall_snoc split: prod.splits)
  obtain steps3 fin3 er3 s3 where das:
    "doActions uc e steps n2t (actions r) s1 = ((steps3, fin3, er3), s3)"
    by (metis prod.exhaust)
  have acted: "steps3 = [] \<and> fin3 = None \<and> endsInToolCall (trace s3)" if "er3 = Some er"
    using das that doActions_error [of uc e steps n2t "actions r" s1 steps3 fin3 er s3] by simp
  from assms cp das s1 acted show ?thesis
    by (auto simp: doIteration_def Let_def getReturn_def split: if_splits option.splits go.splits)
qed

lemma Call_panics:
  assumes "inputsToString errText inputValues = Inr inputs"
    and "Call_loop uc errText e (getNameToTool uc (GetTools (Agent e))) inputs 0 [] s = (Panics, s1)"
  shows "Call uc errText e inputValues s = (Panics, s1)"
  using assms by (simp add: Call_def)

text \<open>
  C5: within a call the ledger never shrinks. The steps that an operation returns extend
  the steps it was given: the check for a repetition keeps them or appends the caution;
  the dispatch of an action appends one step; an iteration (the planner's call, the
  recovery from output that cannot be parsed, the actions) that returns no error returns
  an extension, and the loop goes on with it, or with the hint after it. Steps that do
  not extend the ledger are only ever returned beside an error: the ledger as it was with
  the planner's error, and \<^verbatim>\<open>nil\<close> with the error of a tool, whose call is then the
  last event of the trace; \<^verbatim>\<open>Call\<close> then returns that error at once and reads the steps
  no more. So every ledger that a call hands to the planner, to a tool or to the handler
  extends all those it handed out before. The hypotheses say where the run is: at the
  start of iteration \<open>i\<close> of the call that started in \<open>s0\<close>; \<open>steps1\<close> and \<open>s1\<close> are
  any point inside an iteration.
\<close>

theorem ledger_never_shrinks:
  assumes inputs: "inputsToString errText inputValues = Inr inputs"
    and n2t: "n2t = getNameToTool uc (GetTools (Agent e))"
    and started: "ledgerChain (trace s0) []"
    and iteration:
      "Call_loop uc errText e n2t inputs 0 [] s0 = Call_loop uc errText e n2t inputs i steps s"
      "i < MaxIterations e"
  shows "prefix steps1 (fst (checkRepeatedAction steps1 a))
    \<and> (case doAction uc e steps1 n2t a s1 of
         ((steps', None), s') \<Rightarrow> prefix steps1 steps' \<and> length steps' = Suc (length steps1)
       | ((steps', Some er), s') \<Rightarrow> steps' = [] \<and> endsInToolCall (trace s'))
    \<and> (case doIteration uc errText e steps n2t inputs s of
         (Panics, s') \<Rightarrow> Call uc errText e inputValues s0 = (Panics, s')
       | (Returns (steps', fin, None), s') \<Rightarrow>
           prefix steps steps' \<and> prefix steps (lastChance e i steps')
           \<and> (case fin of
                None \<Rightarrow>
                  Call_loop uc errText e n2t inputs 0 [] s0 =
                    Call_loop uc errText e n2t inputs (i + 1) (lastChance e i steps') s'
              | Some m \<Rightarrow> Call uc errText e inputValues s0 = (Returns (fin, None), s'))
       | (Returns (steps', fin, Some er), s') \<Rightarrow>
           (if endsInToolCall (trace s') then steps' = [] else steps' = steps)
           \<and> Call uc errText e inputValues s0 = (Returns (None, Some er), s'))
    \<and> (case Call_loop uc errText e n2t inputs i steps s of
         (Returns (Exhausted steps'), s') \<Rightarrow> prefix steps steps'
       | _ \<Rightarrow> True)
    \<and> sorted_wrt prefix (ledgersOf (trace (snd (Call uc errText e inputValues s0))))"
proof (intro conjI)
  show "prefix steps1 (fst (checkRepeatedAction steps1 a))"
    by (rule checkRepeatedAction_prefix)
  show "case doAction uc e steps1 n2t a s1 of
         ((steps', None), s') \<Rightarrow> prefix steps1 steps' \<and> length steps' = Suc (length steps1)
       | ((steps', Some er), s') \<Rightarrow> steps' = [] \<and> endsInToolCall (trace s')"
    using doAction_ledger [where uc = uc and e = e and steps = steps1 and ?n2t = n2t and a = a and s = s1]
    by (auto split: prod.splits option.splits dest: doAction_error)
  show "case Call_loop uc errText e n2t inputs i steps s of
         (Returns (Exhausted steps'), s') \<Rightarrow> prefix steps steps'
       | _ \<Rightarrow> True"
    by (rule Call_loop_ledger)
  show "sorted_wrt prefix (ledgersOf (trace (snd (Call uc errText e inputValues s0))))"
    using started by (rule Call_chain)
  obtain res s' where di: "doIteration uc errText e steps n2t inputs s = (res, s')"
    by (metis prod.exhaust)
  show "case doIteration uc errText e steps n2t inputs s of
         (Panics, s') \<Rightarrow> Call uc errText e inputValues s0 = (Panics, s')
       | (Returns (steps', fin, None), s') \<Rightarrow>
           prefix steps steps' \<and> prefix steps (lastChance e i steps')
           \<and> (case fin of
                None \<Rightarrow>
                  Call_loop uc errText e n2t inputs 0 [] s0 =
                    Call_loop uc errText e n2t inputs (i + 1) (lastChance e i steps') s'
              | Some m \<Rightarrow> Call uc errText e inputValues s0 = (Returns (fin, None), s'))
       | (Returns (steps', fin, Some er), s') \<Rightarrow>
           (if endsInToolCall (trace s') then steps' = [] else steps' = steps)
           \<and> Call uc errText e inputValues s0 = (Returns (None, Some er), s')"
  proof (cases res)
    case Panics
    with di iteration have "Call_loop uc errText e n2t inputs 0 [] s0 = (Panics, s')"
      by (simp add: Call_loop_panic)
    with inputs n2t have "Call uc errText e inputValues s0 = (Panics, s')"
      by (simp add: Call_panics)
    with di Panics show ?thesis by simp
  next
    case (Returns t)
    obtain steps' fin er where t: "t = (steps', fin, er)" by (metis prod.exhaust)
    show ?thesis
    proof (cases er)
      case (Some x)
      from di Returns t Some have err: "fin = None"
        "if endsInToolCall (trace s') then steps' = [] else steps' = steps"
        using doIteration_error [of uc errText e steps n2t inputs s steps' fin x s'] by simp_all
      from di Returns t Some iteration
      have "Call_loop uc errText e n2t inputs 0 [] s0 = (Returns (Returned fin (Some x)), s')"
        by (simp add: Call_loop_return)
      with inputs n2t err(1) have "Call uc errText e inputValues s0 = (Returns (None, Some x), s')"
        by (simp add: Call_returned)
      with di Returns t Some err show ?thesis by simp
    next
      case None
      from doIteration_ledger [where uc = uc and errText = errText and e = e and steps = steps
          and ?n2t = n2t and inputs = inputs and s = s] di Returns t None
      have p: "prefix steps steps'" by simp
      then have p2: "prefix steps (lastChance e i steps')"
        using lastChance_prefix by (rule prefix_order.trans)
      show ?thesis
      proof (cases fin)
        case nofin: None
        with di Returns t None iteration
        have "Call_loop uc errText e n2t inputs 0 [] s0 =
            Call_loop uc errText e n2t inputs (i + 1) (lastChance e i steps') s'"
          by (simp add: Call_loop_continue)
        with di Returns t None nofin p p2 show ?thesis by simp
      next
        case (Some m)
        with di Returns t None iteration
        have "Call_loop uc errText e n2t inputs 0 [] s0 = (Returns (Returned fin None), s')"
          by (simp add: Call_loop_return)
        with inputs n2t have "Call uc errText e inputValues s0 = (Returns (fin, None), s')"
          by (simp add: Call_returned)
        with di Returns t None Some p p2 show ?thesis by simp
      qed
    qed
  qed
qed


theorem ledger_never_shrinks_witness:
  "Call plainUnicode exampleTexts
      (thenExecutor [toolAction ''search'' ''capital of France''] [toolAction ''fetch'' ''x''])
      [] start =
     (Returns (None, Some (Errorf ''connection refused'')),
      \<lparr>world = 20, trace =
        [PlanCalled [] (planActions [toolAction ''search'' ''capital of France'']),
         ToolCalled ''Search'' ''capital of France'' [],
         PlanCalled [searchStep] (planActions [toolAction ''fetch'' ''x'']),
         ToolCalled ''fetch'' ''x'' [searchStep]]\<rparr>)
   \<and> sorted_wrt prefix (ledgersOf (trace (snd (Call plainUnicode exampleTexts
      (thenExecutor [toolAction ''search'' ''capital of France''] [toolAction ''fetch'' ''x''])
      [] start))))"
proof -
  let ?e = "thenExecutor [toolAction ''search'' ''capital of France''] [toolAction ''fetch'' ''x'']"
  let ?n2t = "getNameToTool plainUnicode (GetTools (Agent ?e))"
  let ?s = "\<lparr>world = 10::nat, trace =
        [PlanCalled [] (planActions [toolAction ''search'' ''capital of France'']),
         ToolCalled ''Search'' ''capital of France'' []]\<rparr>"
  let ?s' = "\<lparr>world = 20::nat, trace =
        [PlanCalled [] (planActions [toolAction ''search'' ''capital of France'']),
         ToolCalled ''Search'' ''capital of France'' [],
         PlanCalled [searchStep] (planActions [toolAction ''fetch'' ''x'']),
         ToolCalled ''fetch'' ''x'' [searchStep]]\<rparr>"
  have inputs: "inputsToString exampleTexts [] = Inr Map.empty"
    by (simp add: inputsToString_def)
  have started: "ledgerChain (trace start) []"
    by (simp add: start_def ledgerChain_def ledgersOf_def)
  have budget: "0 < MaxIterations ?e" "1 < MaxIterations ?e"
    by (simp_all add: thenExecutor_def)
  have first: "doIteration plainUnicode exampleTexts ?e [] ?n2t Map.empty start =
      (Returns ([searchStep], None, None), ?s)"
    by (simp add: run_defs thenExecutor_def thenPlanner_def toolAction_def searchTool_def
        brokenTool_def searchStep_def start_def)
  have hint: "lastChance ?e 0 [searchStep] = [searchStep]"
    by (simp add: lastChance_def thenExecutor_def)
  have reached: "Call_loop plainUnicode exampleTexts ?e ?n2t Map.empty 0 [] start =
      Call_loop plainUnicode exampleTexts ?e ?n2t Map.empty 1 [searchStep] ?s"
    using Call_loop_continue [OF budget(1) first] hint by simp
  have second: "doIteration plainUnicode exampleTexts ?e [searchStep] ?n2t Map.empty ?s =
      (Returns ([], None, Some (Errorf ''connection refused'')), ?s')"
    by (simp add: run_defs thenExecutor_def thenPlanner_def toolAction_def searchTool_def
        brokenTool_def searchStep_def)
  note here = ledger_never_shrinks [OF inputs refl started reached budget(2)]
  from here [THEN conjunct2, THEN conjunct2, THEN conjunct1]
  have "Call plainUnicode exampleTexts ?e [] start =
      (Returns (None, Some (Errorf ''connection refused'')), ?s')"
    unfolding second by simp
  moreover from here [THEN conjunct2, THEN conjunct2, THEN conjunct2, THEN conjunct2]
  have "sorted_wrt prefix (ledgersOf (trace (snd (Call plainUnicode exampleTexts ?e [] start))))" .
  ultimately show ?thesis by simp
qed

subsection \<open>The planner finishes\<close>

text \<open>
  When the plan comes with a finish whose return values are not \<^verbatim>\<open>nil\<close>, the iteration
  notifies the handler and the loop returns the return values, with the ledger under
  \<^verbatim>\<open>intermediateSteps\<close> when \<^verbatim>\<open>ReturnIntermediateSteps\<close> is set, and no error; the
  actions of the plan are not looked at, and the planner is not called again.
\<close>

lemma finish_with_return_values_returns:
  assumes "i < MaxIterations e"
    and "callPlan e steps inputs s = (r, s1)" and "err r = None"
    and "finish r = Some fin" and "ReturnValues fin = Some m"
  shows "Call_loop uc errText e n2t inputs i steps s =
      (Returns (Returned
         (Some (if ReturnIntermediateSteps e then m(intermediateStepsOutputKey \<mapsto> VSteps steps) else m))
         None),
       notifyFinish e fin steps s1)"
proof -
  have "doIteration uc errText e steps n2t inputs s =
      (Returns (steps,
         Some (if ReturnIntermediateSteps e then m(intermediateStepsOutputKey \<mapsto> VSteps steps) else m),
         None),
       notifyFinish e fin steps s1)"
    using assms by (simp add: doIteration_def getReturn_def)
  with assms(1) show ?thesis by (simp add: Call_loop_return)
qed

text \<open>
  C2 fails on a finish whose return values are \<^verbatim>\<open>nil\<close>. Without
  \<^verbatim>\<open>ReturnIntermediateSteps\<close> the iteration returns the \<^verbatim>\<open>nil\<close> map, which \<^verbatim>\<open>Call\<close>
  takes for no finish: the handler was notified of the finish, and yet the planner is
  called again, here until the iterations run out. With \<^verbatim>\<open>ReturnIntermediateSteps\<close>
  the write into the \<^verbatim>\<open>nil\<close> map panics.
\<close>

theorem nil_return_values_finish_not_returned:
  "Call plainUnicode exampleTexts (nilFinishExecutor False) [] start =
     (Returns (Some Map.empty, Some (Sentinel ErrNotFinished)),
      \<lparr>world = 300, trace =
        [PlanCalled [] (planFinish \<lparr>ReturnValues = None\<rparr>),
         FinishNotified \<lparr>ReturnValues = None\<rparr> [],
         PlanCalled [] (planFinish \<lparr>ReturnValues = None\<rparr>),
         FinishNotified \<lparr>ReturnValues = None\<rparr> [],
         FinishNotified (notFinishedFinish exampleTexts) []]\<rparr>)
   \<and> Call plainUnicode exampleTexts (nilFinishExecutor True) [] start =
     (Panics, \<lparr>world = 100, trace =
        [PlanCalled [] (planFinish \<lparr>ReturnValues = None\<rparr>),
         FinishNotified \<lparr>ReturnValues = None\<rparr> []]\<rparr>)"
  by (simp add: run_defs nilFinishExecutor_def nilFinishPlanner_def start_def recordingHandler_def)

subsection \<open>The bound on the planner's calls\<close>

text \<open>
  C3: with \<^verbatim>\<open>MaxIterations = N\<close>, a call of \<^verbatim>\<open>Call\<close> invokes the planner's \<^verbatim>\<open>Plan\<close> at
  most \<open>N\<close> times (not at all when \<open>N\<close> is negative), whatever the number of actions
  the plans hold: the trace of the call has at most \<open>N\<close> more planner calls than the
  trace it started from.
\<close>

theorem Call_plans_at_most_MaxIterations:
  "planCalls (trace (snd (Call uc errText e inputValues s))) \<le> planCalls (trace s) + nat (MaxIterations e)"
proof (cases "inputsToString errText inputValues")
  case (Inl a)
  then show ?thesis by (simp add: Call_def)
next
  case (Inr inputs)
  obtain r s1 where cl: "Call_loop uc errText e (getNameToTool uc (GetTools (Agent e))) inputs 0 [] s = (r, s1)"
    by (metis prod.exhaust)
  from Call_loop_planCalls [OF cl]
  have le: "planCalls (trace s1) \<le> planCalls (trace s) + nat (MaxIterations e)" by simp
  have "planCalls (trace (snd (Call uc errText e inputValues s))) = planCalls (trace s1)"
    using Inr cl
    by (auto simp: Call_def Let_def notifyFinish_planCalls getReturn_def
        split: go.splits loop_result.splits if_splits)
  with le show ?thesis by simp
qed

theorem Call_plans_at_most_MaxIterations_witness:
  "planCalls (trace (snd (Call plainUnicode exampleTexts
      (thenExecutor [toolAction ''search'' ''capital of France'', toolAction ''footool'' ''x'']
         [toolAction ''search'' ''capital of Spain''])
      [] start))) \<le> 5"
  using Call_plans_at_most_MaxIterations [of plainUnicode exampleTexts
      "thenExecutor [toolAction ''search'' ''capital of France'', toolAction ''footool'' ''x'']
         [toolAction ''search'' ''capital of Spain'']" "[]" start]
  by (simp add: thenExecutor_def start_def planCalls_simps)

subsection \<open>A run that finishes\<close>

text \<open>
  The planner asks for a search, the tool answers, and the second plan finishes with the
  answer: \<^verbatim>\<open>Call\<close> returns it, and with \<^verbatim>\<open>ReturnIntermediateSteps\<close> not set nothing
  else.
\<close>

lemma search_run_returns_answer:
  "Call plainUnicode exampleTexts (toolExecutor [searchTool] [toolAction ''search'' ''capital of France''])
      [(''input'', VString ''What is the capital of France?'')] start =
     (Returns (Some [''output'' \<mapsto> VString ''Paris''], None),
      \<lparr>world = 111, trace =
        [PlanCalled [] (planActions [toolAction ''search'' ''capital of France'']),
         ActionNotified (toolAction ''search'' ''capital of France''),
         ToolCalled ''Search'' ''capital of France'' [],
         PlanCalled [searchStep] (planFinish (outputOnly ''Paris'')),
         FinishNotified (outputOnly ''Paris'') [searchStep]]\<rparr>)"
  by (simp add: run_defs toolExecutor_def oneToolPlanner_def toolAction_def searchTool_def
      searchStep_def outputOnly_def start_def recordingHandler_def)

end
